theory Spec2Isabelle
  imports Complex_Main "HOL-Library.Sublist" "HOL-Library.Multiset"
begin

section \<open>Text and values\<close>

text \<open>
  Query text is a sequence of code units. The model takes the code units of the
  Latin-1 range, one \<^typ>\<open>char\<close> each. The character classes below are the ones the
  regular expressions of \<open>CypherTranslator\<close> use: \<open>\s\<close> (white space and line
  terminators), \<open>\d\<close> and \<open>\w\<close>.
\<close>

definition is_space :: "char \<Rightarrow> bool" where
  "is_space c \<longleftrightarrow>
     c \<in> set [CHR 0x09, CHR 0x0A, CHR 0x0B, CHR 0x0C, CHR 0x0D, CHR '' '', CHR 0xA0]"

definition is_digit :: "char \<Rightarrow> bool" where
  "is_digit c \<longleftrightarrow> c \<in> set ''0123456789''"

definition is_word :: "char \<Rightarrow> bool" where
  "is_word c \<longleftrightarrow>
     c \<in> set ''abcdefghijklmnopqrstuvwxyzABCDEFGHIJKLMNOPQRSTUVWXYZ0123456789_''"

text \<open>
  Under the \<open>i\<close> flag two code units match when their canonical forms agree. Every
  literal of the patterns below is ASCII, and for those the canonical form is the ASCII
  upper-case letter.
\<close>

definition to_upper :: "char \<Rightarrow> char" where
  "to_upper c =
     (case map_of (zip ''abcdefghijklmnopqrstuvwxyz'' ''ABCDEFGHIJKLMNOPQRSTUVWXYZ'') c of
        Some u \<Rightarrow> u
      | None \<Rightarrow> c)"

definition canon :: "bool \<Rightarrow> char \<Rightarrow> char" where
  "canon ic c = (if ic then to_upper c else c)"

text \<open>
  Values, as a parameter map (\<open>Record<string, any>\<close>) holds them and as \<open>JSON.parse\<close>
  returns them. \<open>JNum\<close> stands for the integral numbers; an object is the list of its
  entries, each key once.
\<close>

datatype jsvalue =
    JUndefined
  | JNull
  | JBool bool
  | JNum int
  | JStr string
  | JArr "jsvalue list"
  | JObj "(string \<times> jsvalue) list"

text \<open>Truthiness, as \<open>if (relType)\<close> and \<open>relType ? a : b\<close> test it.\<close>

fun truthy :: "jsvalue \<Rightarrow> bool" where
  "truthy JUndefined = False"
| "truthy JNull = False"
| "truthy (JBool b) = b"
| "truthy (JNum n) = (n \<noteq> 0)"
| "truthy (JStr s) = (s \<noteq> [])"
| "truthy (JArr xs) = True"
| "truthy (JObj kvs) = True"

fun dec :: "nat \<Rightarrow> string" where
  "dec n = (if n < 10 then [''0123456789'' ! n] else dec (n div 10) @ [''0123456789'' ! (n mod 10)])"

declare dec.simps [simp del]

fun join_comma :: "string list \<Rightarrow> string" where
  "join_comma [] = []"
| "join_comma [s] = s"
| "join_comma (s # t # ss) = s @ '','' @ join_comma (t # ss)"

text \<open>
  The text a template literal \<open>`${v}`\<close> inserts for a value, which is also the
  property key that \<open>obj[v]\<close> reads or writes.
\<close>

fun to_string :: "jsvalue \<Rightarrow> string" where
  "to_string JUndefined = ''undefined''"
| "to_string JNull = ''null''"
| "to_string (JBool b) = (if b then ''true'' else ''false'')"
| "to_string (JNum n) = (if n < 0 then ''-'' @ dec (nat (- n)) else dec (nat n))"
| "to_string (JStr s) = s"
| "to_string (JArr xs) =
     join_comma (map (\<lambda>v. if v = JUndefined \<or> v = JNull then [] else to_string v) xs)"
| "to_string (JObj kvs) = ''[object Object]''"

section \<open>Regular expressions with backtracking\<close>

text \<open>
  The fragment of the regular-expression language that the three patterns are written
  in. A pattern is a list of items, matched left to right; the quantifiers apply to a
  single character class, which is all the patterns need.
\<close>

datatype cls = Space | Digit | Word | AnyChar | NotChar char

fun in_cls :: "cls \<Rightarrow> char \<Rightarrow> bool" where
  "in_cls Space c = is_space c"
| "in_cls Digit c = is_digit c"
| "in_cls Word c = is_word c"
| "in_cls AnyChar c = True"
| "in_cls (NotChar x) c = (c \<noteq> x)"

datatype rx =
    Lit char                  \<comment> \<open>a literal character\<close>
  | Cls cls                   \<comment> \<open>one character of a class\<close>
  | WordB                     \<comment> \<open>\<open>\b\<close>\<close>
  | StarG cls                 \<comment> \<open>\<open>C*\<close>, greedy\<close>
  | StarL cls                 \<comment> \<open>\<open>C*?\<close>, lazy\<close>
  | Alt "rx list" "rx list"   \<comment> \<open>\<open>a|b\<close>\<close>
  | Opt "rx list"             \<comment> \<open>\<open>(?:a)?\<close>\<close>
  | Grp nat "rx list"         \<comment> \<open>capture group number \<open>n\<close>\<close>
  | Close nat string          \<comment> \<open>end of group \<open>n\<close>, opened when the input was the given text\<close>

type_synonym caps = "nat \<rightharpoonup> string"

fun rsize :: "rx \<Rightarrow> nat" where
  "rsize (Alt a b) = Suc (sum_list (map rsize a) + sum_list (map rsize b))"
| "rsize (Opt a) = Suc (sum_list (map rsize a))"
| "rsize (Grp n a) = Suc (Suc (sum_list (map rsize a)))"
| "rsize _ = 1"

definition word_before :: "char option \<Rightarrow> bool" where
  "word_before p = (case p of None \<Rightarrow> False | Some c \<Rightarrow> is_word c)"

definition word_after :: "string \<Rightarrow> bool" where
  "word_after s = (case s of [] \<Rightarrow> False | c # _ \<Rightarrow> is_word c)"

text \<open>
  \<open>rmatch ic r p s c\<close> matches the items \<open>r\<close> at the head of \<open>s\<close>, where \<open>p\<close> is the
  character before \<open>s\<close> (none at the start of the text), \<open>ic\<close> the \<open>i\<close> flag and \<open>c\<close>
  the captures so far. It returns the captures and the input left after the match, or
  \<open>None\<close>. Alternatives are tried in the order of the backtracking semantics: a greedy
  quantifier takes a character first, a lazy one tries the rest of the pattern first.
\<close>

function rmatch :: "bool \<Rightarrow> rx list \<Rightarrow> char option \<Rightarrow> string \<Rightarrow> caps \<Rightarrow> (caps \<times> string) option" where
  "rmatch ic [] p s c = Some (c, s)"
| "rmatch ic (Lit x # k) p s c =
     (case s of
        [] \<Rightarrow> None
      | y # t \<Rightarrow> if canon ic y = canon ic x then rmatch ic k (Some y) t c else None)"
| "rmatch ic (Cls C # k) p s c =
     (case s of
        [] \<Rightarrow> None
      | y # t \<Rightarrow> if in_cls C y then rmatch ic k (Some y) t c else None)"
| "rmatch ic (WordB # k) p s c =
     (if word_before p \<noteq> word_after s then rmatch ic k p s c else None)"
| "rmatch ic (StarG C # k) p s c =
     (case s of
        [] \<Rightarrow> rmatch ic k p s c
      | y # t \<Rightarrow>
          if in_cls C y
          then (case rmatch ic (StarG C # k) (Some y) t c of
                  Some r \<Rightarrow> Some r
                | None \<Rightarrow> rmatch ic k p s c)
          else rmatch ic k p s c)"
| "rmatch ic (StarL C # k) p s c =
     (case rmatch ic k p s c of
        Some r \<Rightarrow> Some r
      | None \<Rightarrow>
          (case s of
             [] \<Rightarrow> None
           | y # t \<Rightarrow> if in_cls C y then rmatch ic (StarL C # k) (Some y) t c else None))"
| "rmatch ic (Alt a b # k) p s c =
     (case rmatch ic (a @ k) p s c of
        Some r \<Rightarrow> Some r
      | None \<Rightarrow> rmatch ic (b @ k) p s c)"
| "rmatch ic (Opt a # k) p s c =
     (case rmatch ic (a @ k) p s c of
        Some r \<Rightarrow> Some r
      | None \<Rightarrow> rmatch ic k p s c)"
| "rmatch ic (Grp n a # k) p s c = rmatch ic (a @ Close n s # k) p s c"
| "rmatch ic (Close n s0 # k) p s c =
     rmatch ic k p s (c(n \<mapsto> take (length s0 - length s) s0))"
  by pat_completeness auto
termination
  by (relation "measures [\<lambda>(ic, r, p, s, c). sum_list (map rsize r), \<lambda>(ic, r, p, s, c). length s]")
     auto

text \<open>
  \<open>rsearch\<close> is one \<open>exec\<close> of a pattern: the leftmost position where it matches.
  The result is the number of characters skipped, the captures and the length of the
  match.
\<close>

fun rsearch :: "bool \<Rightarrow> rx list \<Rightarrow> char option \<Rightarrow> string \<Rightarrow> (nat \<times> caps \<times> nat) option" where
  "rsearch ic r p s =
     (case rmatch ic r p s Map.empty of
        Some (c, rest) \<Rightarrow> Some (0, c, length s - length rest)
      | None \<Rightarrow>
          (case s of
             [] \<Rightarrow> None
           | y # t \<Rightarrow>
               (case rsearch ic r (Some y) t of
                  None \<Rightarrow> None
                | Some (i, c, n) \<Rightarrow> Some (Suc i, c, n))))"

declare rsearch.simps [simp del]

text \<open>
  \<open>replace_all\<close> is \<open>String.prototype.replace\<close> with a pattern that has the \<open>g\<close>
  flag and a replacement function \<open>f\<close>. The function gets the captures of each match,
  in the order of the matches, and may change a state (the parameter object that the
  third rewrite deletes from). After an empty match the search resumes one character
  further.
\<close>

function replace_all ::
  "bool \<Rightarrow> rx list \<Rightarrow> (caps \<Rightarrow> 'st \<Rightarrow> string \<times> 'st) \<Rightarrow> char option \<Rightarrow> string \<Rightarrow> 'st \<Rightarrow> string \<times> 'st"
where
  "replace_all ic r f p s st =
     (case rsearch ic r p s of
        None \<Rightarrow> (s, st)
      | Some (i, c, n) \<Rightarrow>
          (case f c st of
             (out, st') \<Rightarrow>
               (case drop i s of
                  [] \<Rightarrow> (take i s @ out, st')
                | y # t \<Rightarrow>
                    if n = 0
                    then (case replace_all ic r f (Some y) t st' of
                            (o2, st2) \<Rightarrow> (take i s @ out @ y # o2, st2))
                    else (case replace_all ic r f (Some (last (take n (y # t)))) (drop (n - 1) t) st' of
                            (o2, st2) \<Rightarrow> (take i s @ out @ o2, st2)))))"
  by pat_completeness auto
termination
  by (relation "measure (\<lambda>(ic, r, f, p, s, st). length s)")
     (auto dest!: arg_cong [where f = length])

declare replace_all.simps [simp del]

section \<open>CypherTranslator\<close>

definition lits :: "string \<Rightarrow> rx list" where
  "lits s = map Lit s"

definition rx_plus :: "cls \<Rightarrow> rx list" where
  "rx_plus C = [Cls C, StarG C]"

text \<open>A capture as a template literal prints it.\<close>

definition cap :: "caps \<Rightarrow> nat \<Rightarrow> string" where
  "cap c n = (case c n of None \<Rightarrow> ''undefined'' | Some s \<Rightarrow> s)"

text \<open>\<open>/\belementId\s*\(/g\<close>\<close>

definition rx_elementId :: "rx list" where
  "rx_elementId = WordB # lits ''elementId'' @ [StarG Space, Lit CHR ''('']"

text \<open>\<open>/\bround\s*\(([\s\S]*?),\s*(\d+)\s*\)\s*AS\b/g\<close>\<close>

definition rx_round_tail :: "rx list" where
  "rx_round_tail =
     [Lit CHR '','', StarG Space, Grp 2 (rx_plus Digit), StarG Space, Lit CHR '')'', StarG Space]
     @ lits ''AS'' @ [WordB]"

definition rx_round :: "rx list" where
  "rx_round =
     WordB # lits ''round'' @ [StarG Space, Lit CHR ''('', Grp 1 [StarL AnyChar]] @ rx_round_tail"

text \<open>
  \<open>/CALL\s+apoc\.merge\.relationship\s*\(\s*(\w+)\s*,\s*\$(\w+)\s*,\s*\{[^}]*\}\s*,\s*(\{[^}]*\}|\$\w+)\s*,\s*(\w+)(?:\s*,\s*\{[^}]*\})?\s*\)\s*YIELD\s+(\w+)/gis\<close>
\<close>

definition rx_braces :: "rx list" where
  "rx_braces = [Lit CHR ''{'', StarG (NotChar CHR ''}''), Lit CHR ''}'']"

definition rx_comma :: "rx list" where
  "rx_comma = [StarG Space, Lit CHR '','', StarG Space]"

definition rx_apoc :: "rx list" where
  "rx_apoc =
     lits ''CALL'' @ rx_plus Space @ lits ''apoc.merge.relationship''
     @ [StarG Space, Lit CHR ''('', StarG Space, Grp 1 (rx_plus Word)]
     @ rx_comma @ [Lit CHR ''$'', Grp 2 (rx_plus Word)]
     @ rx_comma @ rx_braces
     @ rx_comma @ [Grp 3 [Alt rx_braces (Lit CHR ''$'' # rx_plus Word)]]
     @ rx_comma @ [Grp 4 (rx_plus Word), Opt (rx_comma @ rx_braces)]
     @ [StarG Space, Lit CHR '')'', StarG Space] @ lits ''YIELD'' @ rx_plus Space
     @ [Grp 5 (rx_plus Word)]"

text \<open>
  Parameter objects live in a store, so that the caller's object and the translator's
  copy are two objects. An address is an index into the store.
\<close>

type_synonym params = "string \<rightharpoonup> jsvalue"
type_synonym heap = "params list"

definition deref :: "heap \<Rightarrow> nat \<Rightarrow> params" where
  "deref h a = (if a < length h then h ! a else Map.empty)"

text \<open>\<open>{ ...params }\<close>: a new object with the same entries.\<close>

definition spread :: "heap \<Rightarrow> nat \<Rightarrow> nat \<times> heap" where
  "spread h a = (length h, h @ [deref h a])"

text \<open>\<open>params[k]\<close>\<close>

definition get_prop :: "params \<Rightarrow> string \<Rightarrow> jsvalue" where
  "get_prop m k = (case m k of None \<Rightarrow> JUndefined | Some v \<Rightarrow> v)"

text \<open>\<open>delete params[k]\<close>\<close>

definition delete_prop :: "heap \<Rightarrow> nat \<Rightarrow> string \<Rightarrow> heap" where
  "delete_prop h a k = h[a := (deref h a)(k := None)]"

definition translateElementId :: "string \<Rightarrow> string" where
  "translateElementId query =
     fst (replace_all False rx_elementId (\<lambda>c st. (''id('', st)) None query ())"

definition translateRound :: "string \<Rightarrow> string" where
  "translateRound query =
     fst (replace_all False rx_round
            (\<lambda>c st. (''round('' @ cap c 1 @ '') AS'', st)) None query ())"

definition apoc_replacement :: "nat \<Rightarrow> caps \<Rightarrow> heap \<Rightarrow> string \<times> heap" where
  "apoc_replacement a c h =
     (let relType = get_prop (deref h a) (cap c 2);
          h' = (if truthy relType then delete_prop h a (cap c 2) else h);
          safeRelType = (if truthy relType then ''`'' @ to_string relType @ ''`''
                         else ''`RELATED_TO`'')
      in (''MERGE ('' @ cap c 1 @ '')-['' @ cap c 5 @ '':'' @ safeRelType @ '']->(''
            @ cap c 4 @ '')'', h'))"

definition translateApocMergeRelationship :: "string \<Rightarrow> nat \<Rightarrow> heap \<Rightarrow> string \<times> heap" where
  "translateApocMergeRelationship query a h =
     replace_all True rx_apoc (apoc_replacement a) None query h"

text \<open>
  \<open>translate\<close> returns the rewritten text and the address of the rewritten parameter
  object, with the store after the call.
\<close>

definition translate :: "string \<Rightarrow> nat \<Rightarrow> heap \<Rightarrow> (string \<times> nat) \<times> heap" where
  "translate query a h =
     (let (a', h1) = spread h a;
          translated = translateElementId query;
          translated = translateRound translated;
          (translated, h2) = translateApocMergeRelationship translated a' h1
      in ((translated, a'), h2))"

text \<open>The character before the input once \<open>w\<close> has been read: \<open>p\<close> when \<open>w\<close> is empty.\<close>

definition prev_after :: "char option \<Rightarrow> string \<Rightarrow> char option" where
  "prev_after p w = (if w = [] then p else Some (last w))"

text \<open>
  The texts that the end of the \<open>round\<close> pattern, \<open>,\s*(\d+)\s*\)\s*AS\<close>, reads, with
  the digits \<open>d\<close> of the precision; and the expressions that hold such a text followed
  by a word boundary.
\<close>

definition round_tail_text :: "string \<Rightarrow> string \<Rightarrow> bool" where
  "round_tail_text d t \<longleftrightarrow>
     (\<exists>w1 w2 w3. t = '','' @ w1 @ d @ w2 @ '')'' @ w3 @ ''AS''
        \<and> list_all is_space w1 \<and> d \<noteq> [] \<and> list_all is_digit d
        \<and> list_all is_space w2 \<and> list_all is_space w3)"

definition has_round_tail :: "string \<Rightarrow> bool" where
  "has_round_tail e \<longleftrightarrow>
     (\<exists>a d t b. e = a @ t @ b \<and> round_tail_text d t \<and> \<not> word_after b)"

section \<open>BM25 and \<open>search\<close>\<close>

text \<open>
  Numbers are real numbers in the model: the rounding of floating-point arithmetic is
  not part of it. A document is a list of tokens.
\<close>

record bm25 =
  documents :: "string list list"
  k1 :: real
  b :: real
  docLengths :: "nat list"
  avgDocLength :: real
  docFreq :: "string \<rightharpoonup> nat"
  idf :: "string \<rightharpoonup> real"

text \<open>\<open>this.docFreq.set(term, (this.docFreq.get(term) || 0) + 1)\<close> for each term of \<open>new Set(doc)\<close>\<close>

definition count_doc :: "string list \<Rightarrow> (string \<rightharpoonup> nat) \<Rightarrow> (string \<rightharpoonup> nat)" where
  "count_doc doc df =
     fold (\<lambda>term m. m(term \<mapsto> (case m term of None \<Rightarrow> 0 | Some n \<Rightarrow> n) + 1)) (remdups doc) df"

definition computeIdf :: "bm25 \<Rightarrow> bm25" where
  "computeIdf this =
     (let N = length (documents this);
          df = fold count_doc (documents this) (docFreq this)
      in this\<lparr>docFreq := df,
              idf := (\<lambda>term. case df term of
                         None \<Rightarrow> idf this term
                       | Some freq \<Rightarrow> Some (ln ((real N - real freq + 0.5) / (real freq + 0.5) + 1)))\<rparr>)"

definition BM25 :: "string list list \<Rightarrow> real \<Rightarrow> real \<Rightarrow> bm25" where
  "BM25 docs k b' =
     computeIdf \<lparr>documents = docs, k1 = k, b = b',
                 docLengths = map length docs,
                 avgDocLength = real (fold (\<lambda>b2 a. a + b2) (map length docs) 0) / real (length docs),
                 docFreq = Map.empty, idf = Map.empty\<rparr>"

definition score :: "bm25 \<Rightarrow> string list \<Rightarrow> string list \<Rightarrow> nat \<Rightarrow> real" where
  "score this query doc index =
     (let docLength = real (docLengths this ! index)
      in fold (\<lambda>term score.
                 let tf = real (length (filter (\<lambda>t. t = term) doc));
                     idf = (case idf this term of None \<Rightarrow> 0 | Some v \<Rightarrow> v)
                 in score + (idf * tf * (k1 this + 1))
                      / (tf + k1 this * (1 - b this + (b this * docLength) / avgDocLength this)))
           query 0)"

definition bm25_search :: "bm25 \<Rightarrow> string list \<Rightarrow> string list list" where
  "bm25_search this query =
     (let scores = map (\<lambda>(idx, doc). (doc, score this query doc idx))
                       (zip [0..<length (documents this)] (documents this))
      in map fst (sort_key (\<lambda>item. - snd item) scores))"

text \<open>The default arguments of the constructor: \<open>k1 = 1.5, b = 0.75\<close>\<close>

definition default_k1 :: real where
  "default_k1 = 1.5"

definition default_b :: real where
  "default_b = 0.75"

text \<open>
  The formula in the words of the specification: the number of documents that hold a
  term, the inverse document frequency \<open>ln((N - df + 0.5)/(df + 0.5) + 1)\<close>, and the score
  as the sum over the query terms of
  \<open>idf \<cdot> tf \<cdot> (k1+1) / (tf + k1 \<cdot> (1 - b + b \<cdot> docLen/avgDocLen))\<close>.
\<close>

definition spec_df :: "string list list \<Rightarrow> string \<Rightarrow> nat" where
  "spec_df docs term = length (filter (\<lambda>d. term \<in> set d) docs)"

definition spec_idf :: "string list list \<Rightarrow> string \<Rightarrow> real" where
  "spec_idf docs term =
     ln ((real (length docs) - real (spec_df docs term) + 0.5) / (real (spec_df docs term) + 0.5) + 1)"

definition spec_score :: "real \<Rightarrow> real \<Rightarrow> string list list \<Rightarrow> string list \<Rightarrow> string list \<Rightarrow> real" where
  "spec_score k b' docs query doc =
     (\<Sum>term\<leftarrow>query.
        spec_idf docs term * real (count_list doc term) * (k + 1)
        / (real (count_list doc term)
           + k * (1 - b' + b' * real (length doc)
                    / (real (sum_list (map length docs)) / real (length docs)))))"

record EntityTriple =
  source :: string
  relationship :: string
  destination :: string

record SearchOutputItem = EntityTriple +
  source_id :: string
  relation_id :: string
  destination_id :: string
  similarity :: real





text \<open>One term of the sum, and the scored documents before sorting.\<close>

definition summand :: "string list list \<Rightarrow> string list \<Rightarrow> string \<Rightarrow> real" where
  "summand docs doc t =
     spec_idf docs t * real (count_list doc t) * (default_k1 + 1)
        / (real (count_list doc t)
           + default_k1 * (1 - default_b + default_b * real (length doc)
                    / (real (sum_list (map length docs)) / real (length docs))))"

definition scored :: "bm25 \<Rightarrow> string list \<Rightarrow> (string list \<times> real) list" where
  "scored this query =
     map (\<lambda>(idx, doc). (doc, score this query doc idx))
         (zip [0..<length (documents this)] (documents this))"

section \<open>The graph store\<close>

datatype pvalue = PStr string | PVec "real list" | PTime nat

record gnode =
  node_id :: nat
  label :: string
  props :: "string \<rightharpoonup> pvalue"

record gedge =
  edge_id :: nat
  rel_type :: string
  src :: nat
  dst :: nat
  rprops :: "string \<rightharpoonup> pvalue"

record gstore =
  nodes :: "gnode list"
  edges :: "gedge list"
  next_id :: nat
  clock :: nat

text \<open>\<open>(v:Label {k: value, ...})\<close>\<close>

definition node_matches :: "string \<Rightarrow> (string \<times> pvalue) list \<Rightarrow> gnode \<Rightarrow> bool" where
  "node_matches lbl kvs n \<longleftrightarrow> label n = lbl \<and> list_all (\<lambda>kv. props n (fst kv) = Some (snd kv)) kvs"

text \<open>
  \<open>MERGE (v:Label {...}) ON CREATE SET ... ON MATCH SET ...\<close>: the nodes that match the
  pattern, each with the \<open>ON MATCH\<close> properties set; when none matches, one new node
  with the properties of the pattern and of \<open>ON CREATE\<close>. The result lists the nodes bound
  to \<open>v\<close>.
\<close>

definition merge_node ::
  "string \<Rightarrow> (string \<times> pvalue) list \<Rightarrow> (string \<times> pvalue) list \<Rightarrow> (string \<times> pvalue) list
   \<Rightarrow> gstore \<Rightarrow> nat list \<times> gstore"
where
  "merge_node lbl kvs on_create on_match st =
     (if list_ex (node_matches lbl kvs) (nodes st)
      then (map node_id (filter (node_matches lbl kvs) (nodes st)),
            st\<lparr>nodes := map (\<lambda>n. if node_matches lbl kvs n
                                  then n\<lparr>props := props n ++ map_of on_match\<rparr> else n)
                            (nodes st)\<rparr>)
      else ([next_id st],
            st\<lparr>nodes := nodes st @ [\<lparr>node_id = next_id st, label = lbl,
                                        props = map_of kvs ++ map_of on_create\<rparr>],
               next_id := Suc (next_id st)\<rparr>))"

text \<open>\<open>MATCH (v) WHERE id(v) = $id\<close>\<close>

definition match_id :: "nat \<Rightarrow> gstore \<Rightarrow> nat list" where
  "match_id i st = map node_id (filter (\<lambda>n. node_id n = i) (nodes st))"

text \<open>
  \<open>MERGE (s)-[r:TYPE]->(d) ON CREATE SET ...\<close> between two bound nodes: the edges of
  that type from \<open>s\<close> to \<open>d\<close>; when there is none, one new edge with the \<open>ON CREATE\<close>
  properties.
\<close>

definition edge_matches :: "string \<Rightarrow> nat \<Rightarrow> nat \<Rightarrow> gedge \<Rightarrow> bool" where
  "edge_matches t s d e \<longleftrightarrow> rel_type e = t \<and> src e = s \<and> dst e = d"

definition merge_rel ::
  "string \<Rightarrow> (string \<times> pvalue) list \<Rightarrow> nat \<Rightarrow> nat \<Rightarrow> gstore \<Rightarrow> nat list \<times> gstore"
where
  "merge_rel t on_create s d st =
     (if list_ex (edge_matches t s d) (edges st)
      then (map edge_id (filter (edge_matches t s d) (edges st)), st)
      else ([next_id st],
            st\<lparr>edges := edges st @ [\<lparr>edge_id = next_id st, rel_type = t, src = s, dst = d,
                                        rprops = map_of on_create\<rparr>],
               next_id := Suc (next_id st)\<rparr>))"

text \<open>
  A clause runs once for every row that the clauses before it produced, in order, on the
  store the earlier rows left.
\<close>

fun for_rows :: "('r \<Rightarrow> gstore \<Rightarrow> 'q list \<times> gstore) \<Rightarrow> 'r list \<Rightarrow> gstore \<Rightarrow> ('r \<times> 'q) list \<times> gstore" where
  "for_rows clause [] st = ([], st)"
| "for_rows clause (r # rs) st =
     (case clause r st of
        (qs, st1) \<Rightarrow>
          (case for_rows clause rs st1 of
             (rows, st2) \<Rightarrow> (map (Pair r) qs @ rows, st2)))"

definition tick :: "gstore \<Rightarrow> gstore" where
  "tick st = st\<lparr>clock := Suc (clock st)\<rparr>"

text \<open>
  The clauses of the statements of \<open>_addEntities\<close>; \<open>now\<close> is the value of
  \<open>timestamp()\<close>.

  \<open>MERGE (v:Type {name: $name, user_id: $user_id})
   ON CREATE SET v.created = timestamp(), v.embedding = $embedding\<close>, with
  \<open>ON MATCH SET v.embedding = $embedding\<close> when \<open>on_match\<close> is set.
\<close>

definition merge_entity ::
  "string \<Rightarrow> string \<Rightarrow> string \<Rightarrow> real list \<Rightarrow> pvalue \<Rightarrow> bool \<Rightarrow> gstore \<Rightarrow> nat list \<times> gstore"
where
  "merge_entity tp nm uid emb now on_match =
     merge_node tp [(''name'', PStr nm), (''user_id'', PStr uid)]
       [(''created'', now), (''embedding'', PVec emb)]
       (if on_match then [(''embedding'', PVec emb)] else [])"

text \<open>\<open>MERGE (s)-[r:TYPE]->(d) ON CREATE SET r.<key> = timestamp(), ...\<close>\<close>

definition merge_relationship ::
  "string \<Rightarrow> string list \<Rightarrow> pvalue \<Rightarrow> nat \<Rightarrow> nat \<Rightarrow> gstore \<Rightarrow> nat list \<times> gstore"
where
  "merge_relationship t keys now s d = merge_rel t (map (\<lambda>k. (k, now)) keys) s d"

text \<open>
  The four statements. Each returns its rows (source, destination and edge of each
  match) and the store it leaves.
\<close>

definition source_exists_query ::
  "nat \<Rightarrow> string \<Rightarrow> string \<Rightarrow> real list \<Rightarrow> string \<Rightarrow> string \<Rightarrow> gstore \<Rightarrow> ((nat \<times> nat) \<times> nat) list \<times> gstore"
where
  "source_exists_query source_elem_id destinationType destination_name destination_embedding
       user_id relationship' st =
     (let now = PTime (clock st);
          rows1 = match_id source_elem_id st;
          (rows2, st2) =
            for_rows (\<lambda>s. merge_entity destinationType destination_name user_id
                        destination_embedding now False)
              rows1 st;
          (rows3, st3) =
            for_rows (\<lambda>sd. merge_relationship relationship' [''created''] now (fst sd) (snd sd))
              rows2 st2
      in (rows3, tick st3))"

definition destination_exists_query ::
  "nat \<Rightarrow> string \<Rightarrow> string \<Rightarrow> real list \<Rightarrow> string \<Rightarrow> string \<Rightarrow> gstore \<Rightarrow> ((nat \<times> nat) \<times> nat) list \<times> gstore"
where
  "destination_exists_query destination_elem_id sourceType source_name source_embedding
       user_id relationship' st =
     (let now = PTime (clock st);
          rows1 = match_id destination_elem_id st;
          (rows2, st2) =
            for_rows (\<lambda>d. merge_entity sourceType source_name user_id source_embedding now False)
              rows1 st;
          (rows3, st3) =
            for_rows (\<lambda>ds. merge_relationship relationship' [''created''] now (snd ds) (fst ds))
              rows2 st2
      in (rows3, tick st3))"

definition both_exist_query ::
  "nat \<Rightarrow> nat \<Rightarrow> string \<Rightarrow> gstore \<Rightarrow> ((nat \<times> nat) \<times> nat) list \<times> gstore"
where
  "both_exist_query source_elem_id destination_elem_id relationship' st =
     (let now = PTime (clock st);
          rows1 = match_id source_elem_id st;
          rows2 = concat (map (\<lambda>s. map (Pair s) (match_id destination_elem_id st)) rows1);
          (rows3, st3) =
            for_rows (\<lambda>sd. merge_relationship relationship' [''created_at'', ''updated_at''] now
                         (fst sd) (snd sd))
              rows2 st
      in (rows3, tick st3))"

definition neither_exists_query ::
  "string \<Rightarrow> string \<Rightarrow> string \<Rightarrow> string \<Rightarrow> real list \<Rightarrow> real list \<Rightarrow> string \<Rightarrow> string
   \<Rightarrow> gstore \<Rightarrow> ((nat \<times> nat) \<times> nat) list \<times> gstore"
where
  "neither_exists_query sourceType destinationType source_name dest_name source_embedding
       dest_embedding user_id relationship' st =
     (let now = PTime (clock st);
          (rows1, st1) = merge_entity sourceType source_name user_id source_embedding now True st;
          (rows2, st2) =
            for_rows (\<lambda>n. merge_entity destinationType dest_name user_id dest_embedding now True)
              rows1 st1;
          (rows3, st3) =
            for_rows (\<lambda>nm. merge_relationship relationship' [''created''] now (fst nm) (snd nm))
              rows2 st2
      in (rows3, tick st3))"

text \<open>
  \<open>_searchSourceNode\<close> and \<open>_searchDestinationNode\<close> run the same query: the nodes of
  the tenant that have an embedding and whose similarity to the given embedding reaches
  the threshold, the most similar first, at most one. How the store computes the
  similarity expression is the parameter \<open>sim\<close>.
\<close>

definition has_embedding :: "gnode \<Rightarrow> bool" where
  "has_embedding n = (case props n ''embedding'' of Some (PVec v) \<Rightarrow> True | _ \<Rightarrow> False)"

definition embedding_of :: "gnode \<Rightarrow> real list" where
  "embedding_of n = (case props n ''embedding'' of Some (PVec v) \<Rightarrow> v | _ \<Rightarrow> [])"

definition searchSourceNode ::
  "(real list \<Rightarrow> real list \<Rightarrow> real) \<Rightarrow> gstore \<Rightarrow> real list \<Rightarrow> string \<Rightarrow> real \<Rightarrow> nat list"
where
  "searchSourceNode sim st source_embedding user_id threshold =
     (let candidates = filter (\<lambda>n. has_embedding n \<and> props n ''user_id'' = Some (PStr user_id))
                         (nodes st);
          similar = filter (\<lambda>n. threshold \<le> sim (embedding_of n) source_embedding) candidates;
          ordered = sort_key (\<lambda>n. - sim (embedding_of n) source_embedding) similar
      in map node_id (take 1 ordered))"

definition searchDestinationNode ::
  "(real list \<Rightarrow> real list \<Rightarrow> real) \<Rightarrow> gstore \<Rightarrow> real list \<Rightarrow> string \<Rightarrow> real \<Rightarrow> nat list"
where
  "searchDestinationNode sim st destination_embedding user_id threshold =
     searchSourceNode sim st destination_embedding user_id threshold"

text \<open>The default of the \<open>threshold\<close> parameter of both searches.\<close>

definition default_threshold :: real where
  "default_threshold = 0.9"

text \<open>\<open>entityTypeMap[name] || "unknown"\<close>\<close>

definition type_or_unknown :: "(string \<rightharpoonup> string) \<Rightarrow> string \<Rightarrow> string" where
  "type_or_unknown entityTypeMap nm =
     (case entityTypeMap nm of
        None \<Rightarrow> ''unknown''
      | Some t \<Rightarrow> if t = [] then ''unknown'' else t)"

text \<open>The body of the loop of \<open>_addEntities\<close>, for one triple, and the loop.\<close>

definition addEntity ::
  "(real list \<Rightarrow> real list \<Rightarrow> real) \<Rightarrow> (string \<Rightarrow> real list) \<Rightarrow> string \<Rightarrow> (string \<rightharpoonup> string)
   \<Rightarrow> EntityTriple \<Rightarrow> gstore \<Rightarrow> ((nat \<times> nat) \<times> nat) list \<times> gstore"
where
  "addEntity sim embeddingModel userId entityTypeMap item st =
     (let sourceType = type_or_unknown entityTypeMap (source item);
          destinationType = type_or_unknown entityTypeMap (destination item);
          sourceEmbedding = embeddingModel (source item);
          destEmbedding = embeddingModel (destination item);
          sourceNodeSearchResult = searchSourceNode sim st sourceEmbedding userId default_threshold;
          destinationNodeSearchResult =
            searchDestinationNode sim st destEmbedding userId default_threshold
      in if destinationNodeSearchResult = [] \<and> sourceNodeSearchResult \<noteq> []
         then source_exists_query (hd sourceNodeSearchResult) destinationType (destination item)
                destEmbedding userId (relationship item) st
         else if destinationNodeSearchResult \<noteq> [] \<and> sourceNodeSearchResult = []
         then destination_exists_query (hd destinationNodeSearchResult) sourceType (source item)
                sourceEmbedding userId (relationship item) st
         else if sourceNodeSearchResult \<noteq> [] \<and> destinationNodeSearchResult \<noteq> []
         then both_exist_query (hd sourceNodeSearchResult) (hd destinationNodeSearchResult)
                (relationship item) st
         else neither_exists_query sourceType destinationType (source item) (destination item)
                sourceEmbedding destEmbedding userId (relationship item) st)"

fun addEntities ::
  "(real list \<Rightarrow> real list \<Rightarrow> real) \<Rightarrow> (string \<Rightarrow> real list) \<Rightarrow> EntityTriple list \<Rightarrow> string
   \<Rightarrow> (string \<rightharpoonup> string) \<Rightarrow> gstore \<Rightarrow> ((nat \<times> nat) \<times> nat) list list \<times> gstore"
where
  "addEntities sim embeddingModel [] userId entityTypeMap st = ([], st)"
| "addEntities sim embeddingModel (item # toBeAdded) userId entityTypeMap st =
     (case addEntity sim embeddingModel userId entityTypeMap item st of
        (result, st1) \<Rightarrow>
          (case addEntities sim embeddingModel toBeAdded userId entityTypeMap st1 of
             (results, st2) \<Rightarrow> (result # results, st2)))"

section \<open>Tenants\<close>

text \<open>
  A node of the tenant: the node with this id has the tenant's identifier as its
  \<open>user_id\<close>. A store extends another for a tenant when every node is an old one with
  the same \<open>user_id\<close> or has the tenant's, every old node is still there with its
  \<open>user_id\<close>, and every new edge has no \<open>user_id\<close> and joins two nodes of the tenant.
\<close>

definition owned :: "string \<Rightarrow> gstore \<Rightarrow> nat \<Rightarrow> bool" where
  "owned uid st i \<longleftrightarrow> (\<exists>n\<in>set (nodes st). node_id n = i \<and> props n ''user_id'' = Some (PStr uid))"



section \<open>Extraction from the model's tool calls\<close>

text \<open>\<open>toLowerCase()\<close> on the code units of the Latin-1 range, and \<open>.replace(/ /g, "_")\<close>\<close>

definition to_lower :: "char \<Rightarrow> char" where
  "to_lower c =
     (let n = (of_char c :: nat)
      in if (65 \<le> n \<and> n \<le> 90) \<or> (192 \<le> n \<and> n \<le> 222 \<and> n \<noteq> 215) then char_of (n + 32) else c)"

definition normalize :: "string \<Rightarrow> string" where
  "normalize s = map (\<lambda>c. if c = CHR '' '' then CHR ''_'' else c) (map to_lower s)"

datatype js_error = SyntaxError | TypeError

record ToolCall =
  name :: string
  arguments :: string

text \<open>
  What \<open>generateResponse\<close> returns: a string, or a response whose \<open>toolCalls\<close> may be
  missing.
\<close>

datatype LLMResult = Text string | LLMResponse "ToolCall list option"

text \<open>
  \<open>v.k\<close> for one of the keys read here (\<open>entities\<close>, \<open>entity\<close>, \<open>entity_type\<close>,
  \<open>source\<close>, \<open>relationship\<close>, \<open>destination\<close>): a \<open>TypeError\<close> on \<open>null\<close> and
  \<open>undefined\<close>, \<open>undefined\<close> on the other values that are not objects.
\<close>

fun get_field :: "jsvalue \<Rightarrow> string \<Rightarrow> js_error + jsvalue" where
  "get_field JUndefined k = Inl TypeError"
| "get_field JNull k = Inl TypeError"
| "get_field (JObj kvs) k = Inr (case map_of kvs k of None \<Rightarrow> JUndefined | Some v \<Rightarrow> v)"
| "get_field v k = Inr JUndefined"

text \<open>\<open>for (const item of v)\<close>: arrays and strings are iterable.\<close>

fun iterate :: "jsvalue \<Rightarrow> js_error + jsvalue list" where
  "iterate (JArr xs) = Inr xs"
| "iterate (JStr s) = Inr (map (\<lambda>c. JStr [c]) s)"
| "iterate v = Inl TypeError"

text \<open>
  An object with string keys, as the list of its entries in the order of insertion.
  \<open>obj[k] = v\<close> replaces the value of a key that is there and adds a new key at the end.
\<close>

fun assign :: "(string \<times> 'v) list \<Rightarrow> string \<Rightarrow> 'v \<Rightarrow> (string \<times> 'v) list" where
  "assign [] k v = [(k, v)]"
| "assign (p # ps) k v = (if fst p = k then (k, v) # ps else p # assign ps k v)"

text \<open>
  \<open>Object.entries\<close> and \<open>Object.keys\<close> list the keys that are array indices first, in
  ascending order, then the other keys in the order of insertion.
\<close>

definition index_value :: "string \<Rightarrow> nat" where
  "index_value k = foldl (\<lambda>n c. 10 * n + (of_char c - 48)) 0 k"

definition is_index :: "string \<Rightarrow> bool" where
  "is_index k \<longleftrightarrow>
     k \<noteq> [] \<and> list_all is_digit k \<and> (k = ''0'' \<or> hd k \<noteq> CHR ''0'') \<and> index_value k < 4294967295"

definition entries :: "(string \<times> 'v) list \<Rightarrow> (string \<times> 'v) list" where
  "entries obj =
     sort_key (\<lambda>kv. index_value (fst kv)) (filter (\<lambda>kv. is_index (fst kv)) obj)
     @ filter (\<lambda>kv. \<not> is_index (fst kv)) obj"

definition object_keys :: "(string \<times> 'v) list \<Rightarrow> string list" where
  "object_keys obj = map fst (entries obj)"

definition fromEntries :: "(string \<times> 'v) list \<Rightarrow> (string \<times> 'v) list" where
  "fromEntries es = foldl (\<lambda>obj kv. assign obj (fst kv) (snd kv)) [] es"

text \<open>
  The loops of \<open>_retrieveNodesFromData\<close> inside its \<open>try\<close>. They return the map as it
  is when they end, with the error that ended them if there is one.
\<close>

fun add_items :: "jsvalue list \<Rightarrow> (string \<times> jsvalue) list \<Rightarrow> js_error option \<times> (string \<times> jsvalue) list" where
  "add_items [] entityTypeMap = (None, entityTypeMap)"
| "add_items (item # items) entityTypeMap =
     (case get_field item ''entity'' of
        Inl e \<Rightarrow> (Some e, entityTypeMap)
      | Inr k \<Rightarrow>
          (case get_field item ''entity_type'' of
             Inl e \<Rightarrow> (Some e, entityTypeMap)
           | Inr v \<Rightarrow> add_items items (assign entityTypeMap (to_string k) v)))"

fun add_calls ::
  "(string \<Rightarrow> jsvalue option) \<Rightarrow> ToolCall list \<Rightarrow> (string \<times> jsvalue) list
   \<Rightarrow> js_error option \<times> (string \<times> jsvalue) list"
where
  "add_calls parse [] entityTypeMap = (None, entityTypeMap)"
| "add_calls parse (call # calls) entityTypeMap =
     (if name call = ''extract_entities''
      then (case parse (arguments call) of
              None \<Rightarrow> (Some SyntaxError, entityTypeMap)
            | Some args \<Rightarrow>
                (case get_field args ''entities'' of
                   Inl e \<Rightarrow> (Some e, entityTypeMap)
                 | Inr es \<Rightarrow>
                     (case iterate es of
                        Inl e \<Rightarrow> (Some e, entityTypeMap)
                      | Inr items \<Rightarrow>
                          (case add_items items entityTypeMap of
                             (Some e, m) \<Rightarrow> (Some e, m)
                           | (None, m) \<Rightarrow> add_calls parse calls m))))
      else add_calls parse calls entityTypeMap)"

text \<open>
  The normalisation after the \<open>try\<close>: \<open>(v as string).toLowerCase()\<close> is a \<open>TypeError\<close>
  for a value that is not a string.
\<close>

fun normalize_entries :: "(string \<times> jsvalue) list \<Rightarrow> js_error + (string \<times> string) list" where
  "normalize_entries [] = Inr []"
| "normalize_entries ((k, v) # es) =
     (case v of
        JStr t \<Rightarrow>
          (case normalize_entries es of
             Inl e \<Rightarrow> Inl e
           | Inr rest \<Rightarrow> Inr ((normalize k, normalize t) # rest))
      | _ \<Rightarrow> Inl TypeError)"

text \<open>
  \<open>_retrieveNodesFromData\<close>, from the answer of the model on. \<open>parse\<close> is \<open>JSON.parse\<close>,
  with \<open>None\<close> for a \<open>SyntaxError\<close>. The \<open>catch\<close> logs the error and goes on.
\<close>

definition retrieveNodesFromData ::
  "(string \<Rightarrow> jsvalue option) \<Rightarrow> LLMResult \<Rightarrow> js_error + (string \<times> string) list"
where
  "retrieveNodesFromData parse searchResults =
     (let entityTypeMap =
            (case searchResults of
               Text t \<Rightarrow> []
             | LLMResponse None \<Rightarrow> []
             | LLMResponse (Some toolCalls) \<Rightarrow> snd (add_calls parse toolCalls []))
      in case normalize_entries (entries entityTypeMap) of
           Inl e \<Rightarrow> Inl e
         | Inr es \<Rightarrow> Inr (fromEntries es))"

text \<open>\<open>_removeSpacesFromEntities\<close>, on the elements of the array it is given\<close>

definition string_field :: "jsvalue \<Rightarrow> string \<Rightarrow> js_error + string" where
  "string_field item k =
     (case get_field item k of
        Inl e \<Rightarrow> Inl e
      | Inr (JStr s) \<Rightarrow> Inr (normalize s)
      | Inr v \<Rightarrow> Inl TypeError)"

fun removeSpacesFromEntities :: "jsvalue list \<Rightarrow> js_error + EntityTriple list" where
  "removeSpacesFromEntities [] = Inr []"
| "removeSpacesFromEntities (item # entityList) =
     (case string_field item ''source'' of
        Inl e \<Rightarrow> Inl e
      | Inr s \<Rightarrow>
          (case string_field item ''relationship'' of
             Inl e \<Rightarrow> Inl e
           | Inr r \<Rightarrow>
               (case string_field item ''destination'' of
                  Inl e \<Rightarrow> Inl e
                | Inr d \<Rightarrow>
                    (case removeSpacesFromEntities entityList of
                       Inl e \<Rightarrow> Inl e
                     | Inr rest \<Rightarrow>
                         Inr (\<lparr>source = s, relationship = r, destination = d\<rparr> # rest)))))"

text \<open>
  \<open>_establishNodesRelationsFromData\<close>, from the answer of the model on. Only the first
  tool call is read, and \<open>JSON.parse\<close> stands outside any \<open>try\<close>.
\<close>

definition establishNodesRelationsFromData ::
  "(string \<Rightarrow> jsvalue option) \<Rightarrow> LLMResult \<Rightarrow> js_error + EntityTriple list"
where
  "establishNodesRelationsFromData parse extractedEntities =
     (case extractedEntities of
        Text t \<Rightarrow> removeSpacesFromEntities []
      | LLMResponse None \<Rightarrow> removeSpacesFromEntities []
      | LLMResponse (Some []) \<Rightarrow> removeSpacesFromEntities []
      | LLMResponse (Some (toolCall # calls)) \<Rightarrow>
          if arguments toolCall = [] then removeSpacesFromEntities []
          else (case parse (arguments toolCall) of
                  None \<Rightarrow> Inl SyntaxError
                | Some args \<Rightarrow>
                    (case get_field args ''entities'' of
                       Inl e \<Rightarrow> Inl e
                     | Inr es \<Rightarrow>
                         if truthy es
                         then (case es of
                                 JArr entities \<Rightarrow> removeSpacesFromEntities entities
                               | _ \<Rightarrow> Inl TypeError)
                         else removeSpacesFromEntities [])))"

text \<open>\<open>_getDeleteEntitiesFromSearchOutput\<close>, from the answer of the model on\<close>

fun parse_deletions :: "(string \<Rightarrow> jsvalue option) \<Rightarrow> ToolCall list \<Rightarrow> js_error + jsvalue list" where
  "parse_deletions parse [] = Inr []"
| "parse_deletions parse (item # items) =
     (if name item = ''delete_graph_memory''
      then (case parse (arguments item) of
              None \<Rightarrow> Inl SyntaxError
            | Some v \<Rightarrow>
                (case parse_deletions parse items of
                   Inl e \<Rightarrow> Inl e
                 | Inr rest \<Rightarrow> Inr (v # rest)))
      else parse_deletions parse items)"

definition getDeleteEntitiesFromSearchOutput ::
  "(string \<Rightarrow> jsvalue option) \<Rightarrow> LLMResult \<Rightarrow> js_error + EntityTriple list"
where
  "getDeleteEntitiesFromSearchOutput parse memoryUpdates =
     (case memoryUpdates of
        Text t \<Rightarrow> removeSpacesFromEntities []
      | LLMResponse None \<Rightarrow> removeSpacesFromEntities []
      | LLMResponse (Some toolCalls) \<Rightarrow>
          (case parse_deletions parse toolCalls of
             Inl e \<Rightarrow> Inl e
           | Inr toBeDeleted \<Rightarrow> removeSpacesFromEntities toBeDeleted))"

section \<open>The operations of \<open>FalkorMemoryGraph\<close> on the store\<close>

definition has_user :: "string \<Rightarrow> gnode \<Rightarrow> bool" where
  "has_user uid n \<longleftrightarrow> props n ''user_id'' = Some (PStr uid)"

definition has_name :: "string \<Rightarrow> gnode \<Rightarrow> bool" where
  "has_name nm n \<longleftrightarrow> props n ''name'' = Some (PStr nm)"

text \<open>
  One statement of \<open>_deleteEntities\<close>:
  \<open>MATCH (n {name: $source_name, user_id: $user_id})-[r:TYPE]->(m {name: $dest_name, user_id: $user_id}) DELETE r\<close>.
  The rows are the edges it deletes.
\<close>

definition delete_matches :: "string \<Rightarrow> EntityTriple \<Rightarrow> gstore \<Rightarrow> gedge \<Rightarrow> bool" where
  "delete_matches uid item st e \<longleftrightarrow>
     rel_type e = relationship item
     \<and> list_ex (\<lambda>n. node_id n = src e \<and> has_name (source item) n \<and> has_user uid n) (nodes st)
     \<and> list_ex (\<lambda>m. node_id m = dst e \<and> has_name (destination item) m \<and> has_user uid m) (nodes st)"

definition delete_query :: "EntityTriple \<Rightarrow> string \<Rightarrow> gstore \<Rightarrow> gedge list \<times> gstore" where
  "delete_query item userId st =
     (filter (delete_matches userId item st) (edges st),
      tick (st\<lparr>edges := filter (\<lambda>e. \<not> delete_matches userId item st e) (edges st)\<rparr>))"

fun deleteEntities :: "EntityTriple list \<Rightarrow> string \<Rightarrow> gstore \<Rightarrow> gedge list list \<times> gstore" where
  "deleteEntities [] userId st = ([], st)"
| "deleteEntities (item # toBeDeleted) userId st =
     (case delete_query item userId st of
        (result, st1) \<Rightarrow>
          (case deleteEntities toBeDeleted userId st1 of
             (results, st2) \<Rightarrow> (result # results, st2)))"



text \<open>
  \<open>_searchGraphDb\<close> asks the store, for each name of the list, for the relations around
  the nodes of the tenant that are similar to the name's embedding, with
  \<open>this.threshold = 0.7\<close>. The rows the store answers with are the parameter
  \<open>graph_search\<close>.
\<close>

definition threshold :: real where
  "threshold = 0.7"

definition searchGraphDb ::
  "(gstore \<Rightarrow> real list \<Rightarrow> string \<Rightarrow> real \<Rightarrow> nat \<Rightarrow> SearchOutputItem list) \<Rightarrow> (string \<Rightarrow> real list)
   \<Rightarrow> gstore \<Rightarrow> string list \<Rightarrow> string \<Rightarrow> nat \<Rightarrow> SearchOutputItem list"
where
  "searchGraphDb graph_search embeddingModel st nodeList userId limit =
     concat (map (\<lambda>node. graph_search st (embeddingModel node) userId threshold limit) nodeList)"

text \<open>
  What the model is asked, by the data that goes into the messages: the text and the
  tenant, the names of the entities (or the custom prompt, which replaces them), the
  relations found in the store.
\<close>

datatype llm_request =
    ExtractEntities string string
  | EstablishRelations string string "string list"
  | EstablishRelationsCustom string string string
  | DeleteRelations "SearchOutputItem list" string string

record collaborators =
  JSON_parse :: "string \<Rightarrow> jsvalue option"
  structuredLlm :: "llm_request \<Rightarrow> LLMResult"
  embedder :: "string \<Rightarrow> real list"
  store_similarity :: "real list \<Rightarrow> real list \<Rightarrow> real"
  store_search :: "gstore \<Rightarrow> real list \<Rightarrow> string \<Rightarrow> real \<Rightarrow> nat \<Rightarrow> SearchOutputItem list"
  customPrompt :: "string option"

text \<open>
  \<open>add\<close>. An error of a step ends the call; the steps that change the store come
  last.
\<close>

definition add ::
  "collaborators \<Rightarrow> string \<Rightarrow> string \<Rightarrow> gstore
   \<Rightarrow> js_error + ((gedge list list \<times> ((nat \<times> nat) \<times> nat) list list \<times> EntityTriple list) \<times> gstore)"
where
  "add env data userId st =
     (case retrieveNodesFromData (JSON_parse env) (structuredLlm env (ExtractEntities data userId)) of
        Inl e \<Rightarrow> Inl e
      | Inr entityTypeMap \<Rightarrow>
          (case establishNodesRelationsFromData (JSON_parse env)
                  (structuredLlm env (case customPrompt env of
                              None \<Rightarrow> EstablishRelations data userId (object_keys entityTypeMap)
                            | Some p \<Rightarrow>
                                if p = [] then EstablishRelations data userId (object_keys entityTypeMap)
                                else EstablishRelationsCustom data userId p)) of
             Inl e \<Rightarrow> Inl e
           | Inr toBeAdded \<Rightarrow>
               (let searchOutput = searchGraphDb (store_search env) (embedder env) st
                                     (object_keys entityTypeMap) userId 100
                in case getDeleteEntitiesFromSearchOutput (JSON_parse env)
                          (structuredLlm env (DeleteRelations searchOutput data userId)) of
                     Inl e \<Rightarrow> Inl e
                   | Inr toBeDeleted \<Rightarrow>
                       (case deleteEntities toBeDeleted userId st of
                          (deletedEntities, st1) \<Rightarrow>
                            (case addEntities (store_similarity env) (embedder env) toBeAdded userId
                                    (map_of entityTypeMap) st1 of
                               (addedEntities, st2) \<Rightarrow>
                                 Inr ((deletedEntities, addedEntities, toBeAdded), st2))))))"

section \<open>\<open>FalkorDBGraph\<close>\<close>

record FalkorDBConfig =
  host :: string
  port :: nat
  password :: "string option"
  username :: "string option"
  graphName :: "string option"

text \<open>\<open>a || b\<close> on an optional string: \<open>b\<close> when \<open>a\<close> is missing or empty.\<close>

definition or_else :: "string option \<Rightarrow> string \<Rightarrow> string" where
  "or_else a d = (case a of None \<Rightarrow> d | Some s \<Rightarrow> if s = [] then d else s)"

text \<open>
  The connection that \<open>init\<close> opens: the URL it connects to and the name of the graph it
  selects. Every query of the \<open>FalkorMemoryGraph\<close> built on this configuration goes to
  that graph.
\<close>

definition init :: "FalkorDBConfig \<Rightarrow> string \<times> string" where
  "init config =
     (let port' = (if port config = 0 then 6379 else port config);
          host' = (if host config = [] then ''localhost'' else host config);
          url = (if or_else (username config) [] \<noteq> [] \<and> or_else (password config) [] \<noteq> []
                 then ''redis://'' @ or_else (username config) [] @ '':''
                      @ or_else (password config) [] @ ''@'' @ host' @ '':'' @ dec port'
                 else if or_else (password config) [] \<noteq> []
                 then ''redis://:'' @ or_else (password config) [] @ ''@'' @ host' @ '':'' @ dec port'
                 else ''redis://'' @ host' @ '':'' @ dec port')
      in (url, or_else (graphName config) ''mem0''))"

text \<open>
  The request of \<open>deleteAll\<close> for a tenant, as \<open>FalkorDBGraph.query\<close> sends it: the graph
  it goes to, the translated text and the parameters.
\<close>

definition deleteAll_request :: "FalkorDBConfig \<Rightarrow> string \<Rightarrow> string \<times> string \<times> params" where
  "deleteAll_request config userId =
     (case translate ''MATCH (n {user_id: $user_id}) DETACH DELETE n'' 0 [[''user_id'' \<mapsto> JStr userId]] of
        ((translatedQuery, a), h) \<Rightarrow> (snd (init config), translatedQuery, deref h a))"

text \<open>
  Collaborators for an example: a model that answers the request for relations with
  one tool call whose arguments are cut off, and a parser that rejects them.
\<close>

definition example_env :: collaborators where
  "example_env =
     \<lparr>JSON_parse = (\<lambda>s. if s = ''{\"entities\":[]}'' then Some (JObj [(''entities'', JArr [])])
                         else None),
      structuredLlm = (\<lambda>r. case r of
                          EstablishRelations d u ks \<Rightarrow>
                            LLMResponse (Some [\<lparr>name = ''establish_relationships'',
                                                 arguments = ''{\"entities\": [''\<rparr>])
                        | _ \<Rightarrow> Text []),
      embedder = (\<lambda>s. [1]),
      store_similarity = (\<lambda>u v. 1),
      store_search = (\<lambda>st v u t l. []),
      customPrompt = None\<rparr>"

section \<open>Facts about the matcher\<close>

lemma prev_after_simps [simp]:
  "prev_after p [] = p"
  "prev_after p (x # w) = prev_after (Some x) w"
  "prev_after p (w @ [x]) = Some x"
  by (simp_all add: prev_after_def)

lemma prev_after_append [simp]: "prev_after p (u @ v) = prev_after (prev_after p u) v"
  by (simp add: prev_after_def)

lemma rmatch_lits:
  "rmatch False (lits u @ k) p (u @ s) c = rmatch False k (prev_after p u) s c"
  by (induction u arbitrary: p) (simp_all add: lits_def canon_def)

lemma rmatch_lits_fail:
  "\<not> prefix u s \<Longrightarrow> rmatch False (lits u @ k) p s c = None"
  by (induction u arbitrary: p s) (auto simp add: lits_def canon_def split: list.splits)

lemma rmatch_StarG_all:
  assumes "list_all (in_cls C) w" and "\<not> (case s of [] \<Rightarrow> False | y # _ \<Rightarrow> in_cls C y)"
    and "rmatch ic k (prev_after p w) s c = Some r"
  shows "rmatch ic (StarG C # k) p (w @ s) c = Some r"
  using assms
proof (induction w arbitrary: p)
  case Nil
  then show ?case by (cases s) auto
next
  case (Cons x w)
  then show ?case by simp
qed

lemma rmatch_StarL_skip:
  assumes "\<forall>j<length e. rmatch ic k (prev_after p (take j e)) (drop j e @ s) c = None"
  shows "rmatch ic (StarL AnyChar # k) p (e @ s) c = rmatch ic (StarL AnyChar # k) (prev_after p e) s c"
  using assms
proof (induction e arbitrary: p)
  case Nil
  then show ?case by simp
next
  case (Cons x e)
  have head: "rmatch ic k p (x # e @ s) c = None"
    using Cons.prems [rule_format, of 0] by simp
  have "\<forall>j<length e. rmatch ic k (prev_after (Some x) (take j e)) (drop j e @ s) c = None"
  proof (intro allI impI)
    fix j assume "j < length e"
    then show "rmatch ic k (prev_after (Some x) (take j e)) (drop j e @ s) c = None"
      using Cons.prems [rule_format, of "Suc j"] by simp
  qed
  from Cons.IH [OF this] show ?case
    using head by simp
qed

lemma rsearch_skip:
  assumes "\<forall>j<length u. rmatch ic r (prev_after p (take j u)) (drop j u @ s) Map.empty = None"
    and "rmatch ic r (prev_after p u) s Map.empty = Some (c, rest)"
  shows "rsearch ic r p (u @ s) = Some (length u, c, length s - length rest)"
  using assms
proof (induction u arbitrary: p)
  case Nil
  then show ?case by (simp add: rsearch.simps)
next
  case (Cons x u)
  have head: "rmatch ic r p (x # u @ s) Map.empty = None"
    using Cons.prems(1) [rule_format, of 0] by simp
  have "\<forall>j<length u. rmatch ic r (prev_after (Some x) (take j u)) (drop j u @ s) Map.empty = None"
  proof (intro allI impI)
    fix j assume "j < length u"
    then show "rmatch ic r (prev_after (Some x) (take j u)) (drop j u @ s) Map.empty = None"
      using Cons.prems(1) [rule_format, of "Suc j"] by simp
  qed
  from Cons.IH [OF this] Cons.prems(2)
  have "rsearch ic r (Some x) (u @ s) = Some (length u, c, length s - length rest)" by simp
  then show ?case using head by (simp add: rsearch.simps [of ic r p "x # u @ s"])
qed

lemma rmatch_Lit_sound:
  "rmatch False (Lit x # k) p s c = Some r \<Longrightarrow>
   \<exists>t. s = x # t \<and> rmatch False k (Some x) t c = Some r"
  by (cases s) (auto simp add: canon_def split: if_splits)

lemma rmatch_Cls_sound:
  "rmatch ic (Cls C # k) p s c = Some r \<Longrightarrow>
   \<exists>y t. s = y # t \<and> in_cls C y \<and> rmatch ic k (Some y) t c = Some r"
  by (cases s) (auto split: if_splits)

lemma rmatch_StarG_sound:
  "rmatch ic (StarG C # k) p s c = Some r \<Longrightarrow>
   \<exists>w s'. s = w @ s' \<and> list_all (in_cls C) w \<and> rmatch ic k (prev_after p w) s' c = Some r"
proof (induction s arbitrary: p)
  case Nil
  then show ?case by auto
next
  case (Cons y t)
  show ?case
  proof (cases "in_cls C y \<and> rmatch ic (StarG C # k) (Some y) t c = Some r")
    case True
    then obtain w s' where "t = w @ s'" "list_all (in_cls C) w"
      "rmatch ic k (prev_after (Some y) w) s' c = Some r"
      using Cons.IH by blast
    then have "y # t = (y # w) @ s' \<and> list_all (in_cls C) (y # w)
        \<and> rmatch ic k (prev_after p (y # w)) s' c = Some r"
      using True by simp
    then show ?thesis by blast
  next
    case False
    then have "rmatch ic k p (y # t) c = Some r"
      using Cons.prems by (auto split: if_splits option.splits)
    then have "y # t = [] @ (y # t) \<and> list_all (in_cls C) [] \<and> rmatch ic k (prev_after p []) (y # t) c = Some r"
      by simp
    then show ?thesis by blast
  qed
qed

lemma in_cls_eq: "in_cls Space = is_space" "in_cls Digit = is_digit" "in_cls Word = is_word"
  by (rule ext, simp)+

lemma rmatch_Grp: "rmatch ic (Grp n a # k) p s c = rmatch ic (a @ Close n s # k) p s c"
  by simp

lemma rmatch_Close:
  "rmatch ic (Close n s0 # k) p s c = rmatch ic k p s (c(n \<mapsto> take (length s0 - length s) s0))"
  by simp

lemma digit_not_space: "is_digit c \<Longrightarrow> \<not> is_space c"
  by (auto simp add: is_digit_def is_space_def)

lemma space_not_digit: "is_space c \<Longrightarrow> \<not> is_digit c"
  by (auto simp add: is_digit_def is_space_def)

lemma rx_round_tail_flat:
  "rx_round_tail = Lit CHR '','' # StarG Space # Grp 2 [Cls Digit, StarG Digit] # StarG Space
     # Lit CHR '')'' # StarG Space # Lit CHR ''A'' # Lit CHR ''S'' # [WordB]"
  by (simp add: rx_round_tail_def lits_def rx_plus_def)

lemma round_tail_sound:
  assumes "rmatch False rx_round_tail p s c = Some (c', rest)"
  shows "\<exists>d t. s = t @ rest \<and> round_tail_text d t \<and> \<not> word_after rest \<and> c' = c(2 \<mapsto> d)"
proof -
  let ?k4 = "Lit CHR ''A'' # Lit CHR ''S'' # [WordB]"
  let ?k3 = "Lit CHR '')'' # StarG Space # ?k4"
  let ?k2 = "StarG Space # ?k3"
  from rmatch_Lit_sound [OF assms [unfolded rx_round_tail_flat]]
  obtain s1 where s: "s = CHR '','' # s1"
    and m1: "rmatch False (StarG Space # Grp 2 [Cls Digit, StarG Digit] # ?k2) (Some CHR '','') s1 c = Some (c', rest)"
    by blast
  from rmatch_StarG_sound [OF m1] obtain w1 s2 where s1: "s1 = w1 @ s2"
    and w1: "list_all (in_cls Space) w1"
    and m2: "rmatch False (Grp 2 [Cls Digit, StarG Digit] # ?k2) (prev_after (Some CHR '','') w1) s2 c = Some (c', rest)"
    by blast
  from m2 have m2': "rmatch False (Cls Digit # StarG Digit # Close 2 s2 # ?k2) (prev_after (Some CHR '','') w1) s2 c = Some (c', rest)"
    by (simp only: rmatch_Grp append.simps)
  from rmatch_Cls_sound [OF m2'] obtain d0 s3 where s2: "s2 = d0 # s3" and d0: "in_cls Digit d0"
    and m3: "rmatch False (StarG Digit # Close 2 s2 # ?k2) (Some d0) s3 c = Some (c', rest)"
    by blast
  from rmatch_StarG_sound [OF m3] obtain d1 s4 where s3: "s3 = d1 @ s4"
    and d1: "list_all (in_cls Digit) d1"
    and m4: "rmatch False (Close 2 s2 # ?k2) (prev_after (Some d0) d1) s4 c = Some (c', rest)"
    by blast
  let ?c = "c(2 \<mapsto> d0 # d1)"
  have "take (length s2 - length s4) s2 = d0 # d1"
    by (simp add: s2 s3)
  with m4 have m5: "rmatch False (StarG Space # ?k3) (prev_after (Some d0) d1) s4 ?c = Some (c', rest)"
    by (simp only: rmatch_Close)
  from rmatch_StarG_sound [OF m5] obtain w2 s5 where s4: "s4 = w2 @ s5"
    and w2: "list_all (in_cls Space) w2"
    and m6: "rmatch False ?k3 (prev_after (prev_after (Some d0) d1) w2) s5 ?c = Some (c', rest)"
    by blast
  from rmatch_Lit_sound [OF m6] obtain s6 where s5: "s5 = CHR '')'' # s6"
    and m7: "rmatch False (StarG Space # ?k4) (Some CHR '')'') s6 ?c = Some (c', rest)"
    by blast
  from rmatch_StarG_sound [OF m7] obtain w3 s7 where s6: "s6 = w3 @ s7"
    and w3: "list_all (in_cls Space) w3"
    and m8: "rmatch False ?k4 (prev_after (Some CHR '')'') w3) s7 ?c = Some (c', rest)"
    by blast
  from rmatch_Lit_sound [OF m8] obtain s8 where s7: "s7 = CHR ''A'' # s8"
    and m9: "rmatch False (Lit CHR ''S'' # [WordB]) (Some CHR ''A'') s8 ?c = Some (c', rest)"
    by blast
  from rmatch_Lit_sound [OF m9] obtain s9 where s8: "s8 = CHR ''S'' # s9"
    and m10: "rmatch False [WordB] (Some CHR ''S'') s9 ?c = Some (c', rest)"
    by blast
  from m10 have "s9 = rest \<and> \<not> word_after rest \<and> c' = ?c"
    by (auto simp add: word_before_def is_word_def split: if_splits)
  then have "s = ('','' @ w1 @ (d0 # d1) @ w2 @ '')'' @ w3 @ ''AS'') @ rest"
    and "\<not> word_after rest" and "c' = ?c"
    by (simp_all add: s s1 s2 s3 s4 s5 s6 s7 s8)
  moreover have "round_tail_text (d0 # d1) ('','' @ w1 @ (d0 # d1) @ w2 @ '')'' @ w3 @ ''AS'')"
    unfolding round_tail_text_def using w1 d0 d1 w2 w3
    by (intro exI [of _ w1] exI [of _ w2] exI [of _ w3]) (simp add: in_cls_eq)
  ultimately show ?thesis by blast
qed



lemma rsearch_bounds:
  "rsearch ic r p s = Some (i, c, n) \<Longrightarrow> i + n \<le> length s"
proof (induction s arbitrary: p i)
  case Nil
  then show ?case
    by (auto simp add: rsearch.simps [of ic r p "[]"] split: option.splits)
next
  case (Cons y t)
  show ?case
  proof (cases "rmatch ic r p (y # t) Map.empty")
    case None
    then obtain i' where "rsearch ic r (Some y) t = Some (i', c, n)" "i = Suc i'"
      using Cons.prems by (auto simp add: rsearch.simps [of ic r p "y # t"] split: option.splits)
    then show ?thesis using Cons.IH by fastforce
  next
    case (Some m)
    then show ?thesis
      using Cons.prems
      by (auto simp add: rsearch.simps [of ic r p "y # t"] split: option.splits prod.splits)
  qed
qed


lemma replace_all_no_match:
  "rsearch ic r p s = None \<Longrightarrow> replace_all ic r f p s st = (s, st)"
  by (simp add: replace_all.simps)

lemma replace_all_state_inv:
  "(\<And>c st. P st \<Longrightarrow> P (snd (f c st))) \<Longrightarrow> P st \<Longrightarrow> P (snd (replace_all ic r f p s st))"
proof (induction ic r f p s st rule: replace_all.induct)
  case (1 ic r f p s st)
  note step = "1.prems"(1)
  show ?case
  proof (cases "rsearch ic r p s")
    case None
    then show ?thesis using "1.prems"(2) by (simp add: replace_all.simps)
  next
    case (Some m)
    obtain i c n where m: "m = (i, c, n)" by (cases m)
    obtain out st' where f: "f c st = (out, st')" by (cases "f c st")
    have P': "P st'" using step [OF "1.prems"(2), of c] f by simp
    show ?thesis
    proof (cases "drop i s")
      case Nil
      then show ?thesis using Some m f P' by (simp add: replace_all.simps)
    next
      case (Cons y t)
      show ?thesis
      proof (cases "n = 0")
        case True
        have "P (snd (replace_all ic r f (Some y) t st'))"
          using "1.IH"(1) [OF Some [unfolded m] refl refl f [symmetric] Cons True step P'] .
        then show ?thesis using Some m f Cons True
          by (auto simp add: replace_all.simps [of ic r f p s] split: prod.splits)
      next
        case False
        have "P (snd (replace_all ic r f (Some (last (take n (y # t)))) (drop (n - 1) t) st'))"
          using "1.IH"(2) [OF Some [unfolded m] refl refl f [symmetric] Cons False step P'] .
        then show ?thesis using Some m f Cons False
          by (auto simp add: replace_all.simps [of ic r f p s] split: prod.splits)
      qed
    qed
  qed
qed


lemma replace_all_prev:
  "rsearch ic r p s = rsearch ic r q s \<Longrightarrow> replace_all ic r f p s st = replace_all ic r f q s st"
  by (simp add: replace_all.simps [of ic r f p s st] replace_all.simps [of ic r f q s st])

lemma replace_all_at:
  assumes "rsearch ic r p (u @ m @ s) = Some (length u, c, length m)" and "m \<noteq> []"
  shows "replace_all ic r f p (u @ m @ s) st =
         (u @ fst (f c st) @ fst (replace_all ic r f (Some (last m)) s (snd (f c st))),
          snd (replace_all ic r f (Some (last m)) s (snd (f c st))))"
proof -
  define S where "S = u @ m @ s"
  obtain y t where m: "m = y # t" using assms(2) by (cases m) auto
  define T where "T = t @ s"
  have rs: "rsearch ic r p S = Some (length u, c, length m)"
    using assms(1) by (simp add: S_def)
  have dr: "drop (length u) S = y # T" and tk: "take (length u) S = u"
    by (simp_all add: S_def T_def m)
  have lt: "last (take (length m) (y # T)) = last m"
    by (simp add: m T_def)
  have dp: "drop (length m - Suc 0) T = s"
    by (simp add: m T_def)
  have "replace_all ic r f p S st =
        (u @ fst (f c st) @ fst (replace_all ic r f (Some (last m)) s (snd (f c st))),
          snd (replace_all ic r f (Some (last m)) s (snd (f c st))))"
    by (subst replace_all.simps) (auto simp add: rs dr tk lt dp assms(2) split: prod.splits)
  then show ?thesis by (simp add: S_def)
qed

section \<open>The \<open>round\<close> rewrite\<close>

lemma not_space_head:
  "\<not> is_space x \<Longrightarrow> \<not> (case x # s of [] \<Rightarrow> False | y # _ \<Rightarrow> in_cls Space y)"
  by simp

lemma round_tail_complete:
  assumes t: "round_tail_text d t" and b: "\<not> word_after rest"
  shows "rmatch False rx_round_tail p (t @ rest) c = Some (c(2 \<mapsto> d), rest)"
proof -
  from t obtain w1 w2 w3 where t: "t = '','' @ w1 @ d @ w2 @ '')'' @ w3 @ ''AS''"
    and w1: "list_all (in_cls Space) w1" and dne: "d \<noteq> []" and d: "list_all (in_cls Digit) d"
    and w2: "list_all (in_cls Space) w2" and w3: "list_all (in_cls Space) w3"
    unfolding round_tail_text_def in_cls_eq by blast
  obtain d0 d1 where dd: "d = d0 # d1" using dne by (cases d) auto
  let ?k4 = "Lit CHR ''A'' # Lit CHR ''S'' # [WordB]"
  let ?k3 = "Lit CHR '')'' # StarG Space # ?k4"
  let ?k2 = "StarG Space # ?k3"
  let ?c = "c(2 \<mapsto> d)"
  let ?s7 = "CHR ''A'' # CHR ''S'' # rest"
  let ?s5 = "CHR '')'' # w3 @ ?s7"
  let ?s2 = "d @ w2 @ ?s5"
  have e4: "rmatch False ?k4 q ?s7 ?c = Some (?c, rest)" for q
    using b by (simp add: canon_def word_before_def is_word_def)
  have e3: "rmatch False (StarG Space # ?k4) q (w3 @ ?s7) ?c = Some (?c, rest)" for q
    by (rule rmatch_StarG_all [OF w3 _ e4]) (simp add: is_space_def)
  have e3': "rmatch False ?k3 q ?s5 ?c = Some (?c, rest)" for q
    using e3 by (simp add: canon_def)
  have e2: "rmatch False ?k2 q (w2 @ ?s5) ?c = Some (?c, rest)" for q
    by (rule rmatch_StarG_all [OF w2 _ e3']) (simp add: is_space_def)
  have cl: "rmatch False (Close 2 ?s2 # ?k2) q (w2 @ ?s5) c = Some (?c, rest)" for q
    using e2 by simp
  have nd: "\<not> (case w2 @ ?s5 of [] \<Rightarrow> False | y # _ \<Rightarrow> in_cls Digit y)"
  proof (cases w2)
    case Nil
    then show ?thesis by (simp add: is_digit_def)
  next
    case (Cons a l)
    then show ?thesis using w2 by (simp add: space_not_digit)
  qed
  have e1: "rmatch False (StarG Digit # Close 2 ?s2 # ?k2) q (d1 @ w2 @ ?s5) c = Some (?c, rest)" for q
    by (rule rmatch_StarG_all [OF _ nd cl]) (use d dd in simp)
  have e0: "rmatch False (Grp 2 [Cls Digit, StarG Digit] # ?k2) q ?s2 c = Some (?c, rest)" for q
    using e1 d dd by simp
  have ns: "\<not> (case ?s2 of [] \<Rightarrow> False | y # _ \<Rightarrow> in_cls Space y)"
    using d dd by (simp add: digit_not_space)
  have "rmatch False (StarG Space # Grp 2 [Cls Digit, StarG Digit] # ?k2) q (w1 @ ?s2) c = Some (?c, rest)" for q
    by (rule rmatch_StarG_all [OF w1 ns e0])
  then show ?thesis
    by (simp add: t rx_round_tail_flat canon_def)
qed

lemma round_tail_text_comma:
  assumes "round_tail_text d t"
  shows "\<exists>u. t = CHR '','' # u \<and> CHR '','' \<notin> set u"
proof -
  from assms obtain w1 w2 w3 where t: "t = '','' @ w1 @ d @ w2 @ '')'' @ w3 @ ''AS''"
    and w: "list_all is_space w1" "list_all is_digit d" "list_all is_space w2" "list_all is_space w3"
    unfolding round_tail_text_def by blast
  have "\<not> is_space CHR '',''" "\<not> is_digit CHR '',''"
    by (simp_all add: is_space_def is_digit_def)
  then have "CHR '','' \<notin> set (w1 @ d @ w2 @ '')'' @ w3 @ ''AS'')"
    using w by (auto simp add: list_all_iff)
  then show ?thesis using t by simp
qed

lemma append_eq_split:
  assumes "u @ v = x @ c # y" and "c \<notin> set u"
  shows "\<exists>b. x = u @ b \<and> v = b @ c # y"
  using assms
proof (induction u arbitrary: x)
  case Nil
  then show ?case by simp
next
  case (Cons a u)
  then show ?case by (cases x) auto
qed

lemma no_tail_inside:
  assumes e: "\<not> has_round_tail e" and t: "round_tail_text d t" and j: "j < length e"
  shows "rmatch False rx_round_tail p (drop j e @ t @ post) c = None"
proof (rule ccontr)
  assume "rmatch False rx_round_tail p (drop j e @ t @ post) c \<noteq> None"
  then obtain c' rest where "rmatch False rx_round_tail p (drop j e @ t @ post) c = Some (c', rest)"
    by auto
  from round_tail_sound [OF this] obtain d' t' where
    eq: "drop j e @ t @ post = t' @ rest" and t': "round_tail_text d' t'" and r: "\<not> word_after rest"
    by blast
  from round_tail_text_comma [OF t'] obtain u where u: "t' = CHR '','' # u" "CHR '','' \<notin> set u"
    by blast
  from round_tail_text_comma [OF t] obtain v where v: "t = CHR '','' # v"
    by blast
  from j obtain y e' where de: "drop j e = y # e'"
    by (cases "drop j e") auto
  from eq have "u @ rest = e' @ CHR '','' # (v @ post)" and y: "y = CHR '',''"
    by (simp_all add: u v de)
  from append_eq_split [OF this(1) u(2)] obtain b where b: "e' = u @ b" "rest = b @ CHR '','' # (v @ post)"
    by blast
  have "\<not> word_after b"
    using r b(2) by (cases b) (simp_all add: word_after_def)
  moreover have "e = take j e @ t' @ b"
    using de b(1) u(1) y by (metis append_take_drop_id append_Cons)
  ultimately have "has_round_tail e"
    unfolding has_round_tail_def using t' by blast
  with e show False by simp
qed

lemma rx_round_flat:
  "rx_round = WordB # lits ''round'' @ StarG Space # Lit CHR ''('' # Grp 1 [StarL AnyChar] # rx_round_tail"
  by (simp add: rx_round_def)

lemma round_match_here:
  assumes ws: "list_all is_space ws" and t: "round_tail_text d t" and e: "\<not> has_round_tail e"
    and post: "\<not> word_after post" and p: "\<not> word_before p"
  shows "rmatch False rx_round p (''round'' @ ws @ ''('' @ e @ t @ post) Map.empty
         = Some ([1 \<mapsto> e, 2 \<mapsto> d], post)"
proof -
  let ?s0 = "e @ t @ post"
  let ?k = "Close 1 ?s0 # rx_round_tail"
  let ?c = "[1 \<mapsto> e]"
  have fail: "\<forall>j<length e. rmatch False ?k (prev_after q (take j e)) (drop j e @ t @ post) Map.empty = None" for q
    using no_tail_inside [OF e t] by (simp add: rmatch_Close)
  have here: "rmatch False ?k q (t @ post) Map.empty = Some ([1 \<mapsto> e, 2 \<mapsto> d], post)" for q
    using round_tail_complete [OF t post, of q ?c] by (simp add: rmatch_Close)
  have lazy: "rmatch False (StarL AnyChar # ?k) q (e @ t @ post) Map.empty = Some ([1 \<mapsto> e, 2 \<mapsto> d], post)" for q
    using rmatch_StarL_skip [OF fail, of q] here by simp
  have grp: "rmatch False (Grp 1 [StarL AnyChar] # rx_round_tail) q ?s0 Map.empty = Some ([1 \<mapsto> e, 2 \<mapsto> d], post)" for q
    using lazy by (simp add: rmatch_Grp)
  have par: "rmatch False (Lit CHR ''('' # Grp 1 [StarL AnyChar] # rx_round_tail) q (''('' @ ?s0) Map.empty
             = Some ([1 \<mapsto> e, 2 \<mapsto> d], post)" for q
    using grp by (simp add: canon_def)
  have star: "rmatch False (StarG Space # Lit CHR ''('' # Grp 1 [StarL AnyChar] # rx_round_tail) q
                (ws @ ''('' @ ?s0) Map.empty = Some ([1 \<mapsto> e, 2 \<mapsto> d], post)" for q
    by (rule rmatch_StarG_all [OF _ _ par]) (use ws in \<open>simp_all add: in_cls_eq is_space_def\<close>)
  have "rmatch False (lits ''round'' @ StarG Space # Lit CHR ''('' # Grp 1 [StarL AnyChar] # rx_round_tail) p
          (''round'' @ ws @ ''('' @ ?s0) Map.empty = Some ([1 \<mapsto> e, 2 \<mapsto> d], post)"
    by (simp only: rmatch_lits star)
  moreover have "word_after (''round'' @ ws @ ''('' @ ?s0)"
    by (simp add: word_after_def is_word_def)
  ultimately show ?thesis
    using p by (simp add: rx_round_flat)
qed

lemma round_not_prefix:
  assumes "\<not> sublist ''round'' pre" and "j < length pre"
  shows "\<not> prefix ''round'' (drop j pre @ ''round'' @ rest)"
proof
  assume pf: "prefix ''round'' (drop j pre @ ''round'' @ rest)"
  have ne: "drop j pre \<noteq> []" using assms(2) by simp
  have np: "\<not> prefix ''round'' (drop j pre)"
  proof
    assume "prefix ''round'' (drop j pre)"
    then obtain z where "drop j pre = ''round'' @ z" by (auto simp add: prefix_def)
    then have "pre = take j pre @ ''round'' @ z" by (metis append_take_drop_id)
    then have "sublist ''round'' pre" unfolding sublist_def by blast
    with assms(1) show False by simp
  qed
  moreover from pf have "prefix ''round'' (drop j pre)
      \<or> (\<exists>us. ''round'' = drop j pre @ us \<and> prefix us (''round'' @ rest))"
    by (simp only: prefix_append)
  ultimately obtain us where us: "''round'' = drop j pre @ us" "prefix us (''round'' @ rest)"
    by blast
  from us(1) ne us(2) np show False
    by (auto simp add: Cons_eq_append_conv)
qed

lemma round_fails_without_prefix:
  "\<not> prefix ''round'' s \<Longrightarrow> rmatch False rx_round p s c = None"
  by (simp add: rx_round_flat rmatch_lits_fail)

lemma rsearch_round_prev:
  assumes "\<not> word_after post"
  shows "rsearch False rx_round p post = rsearch False rx_round None post"
proof -
  have "\<not> prefix ''round'' post"
    using assms by (cases post) (auto simp add: word_after_def is_word_def)
  then have "rmatch False rx_round q post Map.empty = None" for q
    by (rule round_fails_without_prefix)
  then show ?thesis
    by (simp add: rsearch.simps [of False rx_round p post] rsearch.simps [of False rx_round None post])
qed

lemma no_AS_no_round_tail: "\<not> sublist ''AS'' e \<Longrightarrow> \<not> has_round_tail e"
proof
  assume n: "\<not> sublist ''AS'' e" and "has_round_tail e"
  then obtain a d t b where e: "e = a @ t @ b" and t: "round_tail_text d t"
    unfolding has_round_tail_def by blast
  from t obtain u where "t = u @ ''AS''"
    unfolding round_tail_text_def by (metis append.assoc)
  then have "e = (a @ u) @ ''AS'' @ b" using e by simp
  then have "sublist ''AS'' e" unfolding sublist_def by blast
  with n show False by simp
qed

text \<open>
  Claim C7, as amended. Take the first \<open>round\<close> of a query text, standing at a word
  boundary and followed by \<open>(<expr>, <integer>) AS\<close> with optional white space around
  the parentheses and the integer, where \<open><expr>\<close> holds no \<open>, <integer>) AS\<close> of its
  own. The translator replaces this text by \<open>round(<expr>) AS\<close>, with \<open><expr>\<close> as it
  stands (nested parentheses and line breaks included), and goes on rewriting after it.
\<close>

theorem translateRound_rewrites:
  assumes first: "\<not> sublist ''round'' pre"
    and before: "\<not> word_before (prev_after None pre)"
    and ws: "list_all is_space ws1" "list_all is_space ws2" "list_all is_space ws3"
      "list_all is_space ws4"
    and d: "d \<noteq> []" "list_all is_digit d"
    and e: "\<not> has_round_tail e"
    and after: "\<not> word_after post"
  shows "translateRound
           (pre @ ''round'' @ ws1 @ ''('' @ e @ '','' @ ws2 @ d @ ws3 @ '')'' @ ws4 @ ''AS'' @ post)
         = pre @ ''round('' @ e @ '') AS'' @ translateRound post"
proof -
  let ?t = "'','' @ ws2 @ d @ ws3 @ '')'' @ ws4 @ ''AS''"
  let ?m = "''round'' @ ws1 @ ''('' @ e @ ?t"
  let ?f = "\<lambda>c st. (''round('' @ cap c 1 @ '') AS'', st)"
  have t: "round_tail_text d ?t"
    unfolding round_tail_text_def using ws d by blast
  have here: "rmatch False rx_round (prev_after None pre) (?m @ post) Map.empty = Some ([1 \<mapsto> e, 2 \<mapsto> d], post)"
    using round_match_here [OF ws(1) t e after before] by simp
  have skip: "\<forall>j<length pre. rmatch False rx_round (prev_after None (take j pre)) (drop j pre @ ?m @ post) Map.empty = None"
    using round_not_prefix [OF first] by (simp add: round_fails_without_prefix)
  have "rsearch False rx_round None (pre @ ?m @ post) = Some (length pre, [1 \<mapsto> e, 2 \<mapsto> d], length (?m @ post) - length post)"
    by (rule rsearch_skip [OF skip here])
  then have found: "rsearch False rx_round None (pre @ ?m @ post) = Some (length pre, [1 \<mapsto> e, 2 \<mapsto> d], length ?m)"
    by simp
  have "replace_all False rx_round ?f None (pre @ ?m @ post) () =
        (pre @ ''round('' @ e @ '') AS'' @ fst (replace_all False rx_round ?f (Some (last ?m)) post ()), ())"
    using replace_all_at [OF found, of ?f "()"] by (simp add: cap_def)
  moreover have "replace_all False rx_round ?f (Some (last ?m)) post () = replace_all False rx_round ?f None post ()"
    by (rule replace_all_prev) (rule rsearch_round_prev [OF after])
  ultimately show ?thesis
    by (simp add: translateRound_def)
qed

theorem translateRound_rewrites_witness:
  "\<not> sublist ''round'' ''WITH n, ''
   \<and> \<not> word_before (prev_after None ''WITH n, '')
   \<and> list_all is_space [] \<and> list_all is_space '' '' \<and> ''4'' \<noteq> [] \<and> list_all is_digit ''4''
   \<and> \<not> has_round_tail (''f(a,'' @ [CHR 0x0A] @ '' g(b))'')
   \<and> \<not> word_after '' sim''
   \<and> translateRound (''WITH n, round(f(a,'' @ [CHR 0x0A] @ '' g(b)), 4) AS sim'')
       = ''WITH n, round(f(a,'' @ [CHR 0x0A] @ '' g(b))) AS sim''"
proof -
  have h1: "\<not> sublist ''round'' ''WITH n, ''" by code_simp
  have h2: "\<not> word_before (prev_after None ''WITH n, '')" by code_simp
  have h3: "list_all is_space []" "list_all is_space '' ''" by code_simp+
  have h4: "''4'' \<noteq> []" "list_all is_digit ''4''" by code_simp+
  have "\<not> sublist ''AS'' (''f(a,'' @ [CHR 0x0A] @ '' g(b))'')" by code_simp
  then have h5: "\<not> has_round_tail (''f(a,'' @ [CHR 0x0A] @ '' g(b))'')"
    by (rule no_AS_no_round_tail)
  have h6: "\<not> word_after '' sim''" by code_simp
  have r: "translateRound '' sim'' = '' sim''" by code_simp
  from translateRound_rewrites [OF h1 h2 h3(1) h3(2) h3(1) h3(2) h4 h5 h6]
  have "translateRound (''WITH n, round(f(a,'' @ [CHR 0x0A] @ '' g(b)), 4) AS sim'')
       = ''WITH n, round(f(a,'' @ [CHR 0x0A] @ '' g(b))) AS sim''"
    by (simp add: r)
  with h1 h2 h3 h4 h5 h6 show ?thesis by blast
qed

text \<open>
  When \<open><expr>\<close> holds such a sequence the match ends there: the inner precision is
  dropped and the outer one stays, so the outer expression is not rewritten to
  \<open>round(<expr>) AS\<close>.
\<close>

theorem translateRound_nested_counterexample:
  "translateRound ''round(round(x, 1) AS y, 2) AS z'' = ''round(round(x) AS y, 2) AS z''
   \<and> translateRound ''round(round(x, 1) AS y, 2) AS z'' \<noteq> ''round(round(x, 1) AS y) AS z''"
  by code_simp

section \<open>The APOC rewrite and the parameter object\<close>






lemma apoc_replacement_frame:
  "length h = Suc n \<and> take n h = h0 \<Longrightarrow>
   length (snd (apoc_replacement n c h)) = Suc n \<and> take n (snd (apoc_replacement n c h)) = h0"
  by (simp add: apoc_replacement_def delete_prop_def Let_def)

lemma translateApoc_frame:
  "length h = Suc n \<and> take n h = h0 \<Longrightarrow>
   length (snd (translateApocMergeRelationship q n h)) = Suc n
   \<and> take n (snd (translateApocMergeRelationship q n h)) = h0"
  unfolding translateApocMergeRelationship_def
  by (rule replace_all_state_inv [where P = "\<lambda>h. length h = Suc n \<and> take n h = h0"])
     (simp_all add: apoc_replacement_frame)

lemma translate_store:
  "take (length h) (snd (translate query a h)) = h \<and> snd (fst (translate query a h)) = length h"
  using translateApoc_frame [of "h @ [deref h a]" "length h" h "translateRound (translateElementId query)"]
  by (auto simp add: translate_def spread_def Let_def split: prod.splits)

text \<open>
  Claim C10. \<open>translate\<close> never changes the parameter object of its caller: for every
  query text and every store in which the caller's object \<open>a\<close> is allocated, the object
  at \<open>a\<close> holds after the call exactly the entries it held before, and the returned
  object is another one, so a consumed relationship-type parameter is removed from the
  returned object only.
\<close>

theorem translate_keeps_caller_params:
  "a < length h \<Longrightarrow>
   deref (snd (translate query a h)) a = deref h a \<and> snd (fst (translate query a h)) \<noteq> a"
proof -
  assume a: "a < length h"
  have t: "take (length h) (snd (translate query a h)) = h"
    and r: "snd (fst (translate query a h)) = length h"
    using translate_store [of h query a] by simp_all
  have "length h \<le> length (snd (translate query a h))"
    by (metis t length_take min.cobounded1 min.commute)
  moreover have "snd (translate query a h) ! a = h ! a"
    by (metis t a nth_take)
  ultimately show ?thesis
    using a r by (simp add: deref_def)
qed

theorem translate_keeps_caller_params_witness:
  "(0::nat) < length [[''relType'' \<mapsto> JStr ''KNOWS'', ''other'' \<mapsto> JStr ''value'']]
   \<and> deref (snd (translate ''CALL apoc.merge.relationship(a, $relType, {}, {}, b) YIELD rel'' 0
                  [[''relType'' \<mapsto> JStr ''KNOWS'', ''other'' \<mapsto> JStr ''value'']])) 0
       = deref [[''relType'' \<mapsto> JStr ''KNOWS'', ''other'' \<mapsto> JStr ''value'']] 0
   \<and> snd (fst (translate ''CALL apoc.merge.relationship(a, $relType, {}, {}, b) YIELD rel'' 0
                  [[''relType'' \<mapsto> JStr ''KNOWS'', ''other'' \<mapsto> JStr ''value'']])) \<noteq> 0"
  using translate_keeps_caller_params
    [of 0 "[[''relType'' \<mapsto> JStr ''KNOWS'', ''other'' \<mapsto> JStr ''value'']]"
        "''CALL apoc.merge.relationship(a, $relType, {}, {}, b) YIELD rel''"]
  by simp

text \<open>
  Claim C9. A query text in which none of the three patterns matches at any position is
  returned unchanged, and the returned parameter object holds exactly the entries of
  the caller's object.
\<close>

theorem translate_pass_through:
  assumes "rsearch False rx_elementId None query = None"
    and "rsearch False rx_round None query = None"
    and "rsearch True rx_apoc None query = None"
  shows "fst (fst (translate query a h)) = query
         \<and> deref (snd (translate query a h)) (snd (fst (translate query a h))) = deref h a"
  using assms
  by (simp add: translate_def spread_def translateElementId_def translateRound_def
      translateApocMergeRelationship_def replace_all_no_match deref_def)


theorem translate_pass_through_witness:
  "rsearch False rx_elementId None ''MATCH (n {name: $name}) RETURN n'' = None
   \<and> rsearch False rx_round None ''MATCH (n {name: $name}) RETURN n'' = None
   \<and> rsearch True rx_apoc None ''MATCH (n {name: $name}) RETURN n'' = None
   \<and> fst (fst (translate ''MATCH (n {name: $name}) RETURN n'' 0 [[''name'' \<mapsto> JStr ''Alice'']]))
       = ''MATCH (n {name: $name}) RETURN n''
   \<and> deref (snd (translate ''MATCH (n {name: $name}) RETURN n'' 0 [[''name'' \<mapsto> JStr ''Alice'']]))
        (snd (fst (translate ''MATCH (n {name: $name}) RETURN n'' 0 [[''name'' \<mapsto> JStr ''Alice'']])))
       = deref [[''name'' \<mapsto> JStr ''Alice'']] 0"
proof -
  have h1: "rsearch False rx_elementId None ''MATCH (n {name: $name}) RETURN n'' = None" by code_simp
  have h2: "rsearch False rx_round None ''MATCH (n {name: $name}) RETURN n'' = None" by code_simp
  have h3: "rsearch True rx_apoc None ''MATCH (n {name: $name}) RETURN n'' = None" by code_simp
  from translate_pass_through [OF h1 h2 h3, of 0 "[[''name'' \<mapsto> JStr ''Alice'']]"] h1 h2 h3
  show ?thesis by blast
qed

section \<open>Properties of BM25 and \<open>search\<close>\<close>

lemma count_doc_eq:
  "count_doc doc df = (\<lambda>t. if t \<in> set doc then Some ((case df t of None \<Rightarrow> 0 | Some n \<Rightarrow> n) + 1) else df t)"
proof -
  have "distinct ts \<Longrightarrow>
        fold (\<lambda>term m. m(term \<mapsto> (case m term of None \<Rightarrow> 0 | Some n \<Rightarrow> n) + 1)) ts df
        = (\<lambda>t. if t \<in> set ts then Some ((case df t of None \<Rightarrow> 0 | Some n \<Rightarrow> n) + 1) else df t)"
    for ts
  proof (induction ts arbitrary: df)
    case Nil
    then show ?case by simp
  next
    case (Cons a ts)
    then show ?case by (auto simp add: fun_eq_iff)
  qed
  from this [of "remdups doc"] show ?thesis
    by (simp add: count_doc_def)
qed

lemma fold_count_doc:
  "fold count_doc docs df =
   (\<lambda>t. if spec_df docs t = 0 then df t
        else Some ((case df t of None \<Rightarrow> 0 | Some n \<Rightarrow> n) + spec_df docs t))"
proof (induction docs arbitrary: df)
  case Nil
  then show ?case by (simp add: spec_df_def)
next
  case (Cons d docs)
  have "fold count_doc (d # docs) df = fold count_doc docs (count_doc d df)"
    by simp
  also have "\<dots> = (\<lambda>t. if spec_df docs t = 0 then count_doc d df t
        else Some ((case count_doc d df t of None \<Rightarrow> 0 | Some n \<Rightarrow> n) + spec_df docs t))"
    by (rule Cons.IH)
  also have "\<dots> = (\<lambda>t. if spec_df (d # docs) t = 0 then df t
        else Some ((case df t of None \<Rightarrow> 0 | Some n \<Rightarrow> n) + spec_df (d # docs) t))"
    by (auto simp add: count_doc_eq fun_eq_iff spec_df_def)
  finally show ?case .
qed

lemma docFreq_BM25:
  "docFreq (BM25 docs k b') = (\<lambda>t. if spec_df docs t = 0 then None else Some (spec_df docs t))"
  by (simp add: BM25_def computeIdf_def Let_def fold_count_doc fun_eq_iff)

lemma idf_BM25:
  "idf (BM25 docs k b') = (\<lambda>t. if spec_df docs t = 0 then None else Some (spec_idf docs t))"
  by (simp add: BM25_def computeIdf_def Let_def fold_count_doc fun_eq_iff spec_idf_def)

lemma fold_plus_sum_list: "fold (\<lambda>b2 a. a + b2) (ns :: nat list) a = a + sum_list ns"
  by (induction ns arbitrary: a) simp_all

lemma fold_score_sum: "fold (\<lambda>term score. score + g term) query (a :: real) = a + (\<Sum>term\<leftarrow>query. g term)"
  by (induction query arbitrary: a) simp_all

lemma length_filter_count: "length (filter (\<lambda>t. t = term) doc) = count_list doc term"
  by (induction doc) auto

lemma count_list_pos_df:
  assumes "doc \<in> set docs" and "0 < count_list doc term"
  shows "0 < spec_df docs term"
proof -
  from assms(2) have "count_list doc term \<noteq> 0" by simp
  then have "term \<in> set doc"
    by (simp add: count_list_0_iff)
  with assms(1) have "doc \<in> set (filter (\<lambda>d. term \<in> set d) docs)" by simp
  then show ?thesis unfolding spec_df_def by (metis length_pos_if_in_set)
qed

lemma score_formula:
  assumes "index < length docs" and "docs ! index = doc"
  shows "score (BM25 docs k b') query doc index = spec_score k b' docs query doc"
proof -
  have doc: "doc \<in> set docs" using assms by auto
  define this where "this = BM25 docs k b'"
  have fields: "k1 this = k" "b this = b'"
    "docLengths this = map length docs"
    "avgDocLength this = real (sum_list (map length docs)) / real (length docs)"
    by (simp_all add: this_def BM25_def computeIdf_def Let_def fold_plus_sum_list)
  have dl: "real (docLengths this ! index) = real (length doc)"
    using assms by (simp add: fields)
  have tm: "(case idf this t of None \<Rightarrow> 0 | Some v \<Rightarrow> v) * real (count_list doc t)
              = spec_idf docs t * real (count_list doc t)" for t
    using count_list_pos_df [OF doc, of t]
    by (cases "count_list doc t = 0") (simp_all add: this_def idf_BM25)
  have "score this query doc index =
        (\<Sum>term\<leftarrow>query.
           ((case idf this term of None \<Rightarrow> 0 | Some v \<Rightarrow> v) * real (count_list doc term) * (k + 1))
           / (real (count_list doc term)
              + k * (1 - b' + (b' * real (length doc))
                       / (real (sum_list (map length docs)) / real (length docs)))))"
    unfolding score_def Let_def fold_score_sum length_filter_count fields using assms by simp
  also have "\<dots> = spec_score k b' docs query doc"
    unfolding spec_score_def tm by simp
  finally show ?thesis by (simp add: this_def)
qed

lemma spec_df_le: "spec_df docs t \<le> length docs"
  by (simp add: spec_df_def)

lemma spec_idf_pos: "0 < spec_idf docs t"
proof -
  have "real (spec_df docs t) \<le> real (length docs)"
    using spec_df_le [of docs t] by simp
  then have "0 < (real (length docs) - real (spec_df docs t) + 0.5) / (real (spec_df docs t) + 0.5)"
    by (intro divide_pos_pos) simp_all
  then show ?thesis
    unfolding spec_idf_def by (intro ln_gt_zero) simp
qed

lemma spec_score_summand:
  "spec_score default_k1 default_b docs query doc = (\<Sum>t\<leftarrow>query. summand docs doc t)"
  by (simp add: spec_score_def summand_def)

lemma denominator_pos:
  "0 < default_k1 * (1 - default_b + default_b * real (length doc)
                    / (real (sum_list (map length docs)) / real (length docs)))"
proof -
  have "0 \<le> default_b * real (length doc) / (real (sum_list (map length docs)) / real (length docs))"
    by (simp add: default_b_def)
  moreover have "0 < default_k1" "0 < 1 - default_b"
    by (simp_all add: default_k1_def default_b_def)
  ultimately show ?thesis by (intro mult_pos_pos add_pos_nonneg)
qed

lemma summand_nonneg: "0 \<le> summand docs doc t"
proof -
  have "0 \<le> spec_idf docs t * real (count_list doc t) * (default_k1 + 1)"
    using spec_idf_pos [of docs t] by (simp add: default_k1_def)
  moreover have "0 \<le> real (count_list doc t)
           + default_k1 * (1 - default_b + default_b * real (length doc)
                    / (real (sum_list (map length docs)) / real (length docs)))"
    using denominator_pos [of doc docs] by simp
  ultimately show ?thesis
    unfolding summand_def by (rule divide_nonneg_nonneg)
qed

lemma summand_pos: "t \<in> set doc \<Longrightarrow> 0 < summand docs doc t"
proof -
  assume "t \<in> set doc"
  then have "count_list doc t \<noteq> 0"
    by (simp add: count_list_0_iff)
  then have c: "0 < real (count_list doc t)"
    by simp
  then have "0 < spec_idf docs t * real (count_list doc t) * (default_k1 + 1)"
    using spec_idf_pos [of docs t] by (simp add: default_k1_def)
  moreover have "0 < real (count_list doc t)
           + default_k1 * (1 - default_b + default_b * real (length doc)
                    / (real (sum_list (map length docs)) / real (length docs)))"
    using denominator_pos [of doc docs] c by simp
  ultimately show ?thesis
    unfolding summand_def by (rule divide_pos_pos)
qed

lemma summand_zero: "t \<notin> set doc \<Longrightarrow> summand docs doc t = 0"
  by (simp add: summand_def count_list_0_iff)

lemma spec_score_pos:
  assumes "t \<in> set query" and "t \<in> set doc"
  shows "0 < spec_score default_k1 default_b docs query doc"
proof -
  have "t \<in> set q \<Longrightarrow> 0 < (\<Sum>u\<leftarrow>q. summand docs doc u)" for q
  proof (induction q)
    case Nil
    then show ?case by simp
  next
    case (Cons a q)
    have nn: "0 \<le> (\<Sum>u\<leftarrow>q. summand docs doc u)"
      by (rule sum_list_nonneg) (auto simp add: summand_nonneg)
    show ?case
    proof (cases "a = t")
      case True
      then show ?thesis using summand_pos [OF assms(2), of docs] nn by simp
    next
      case False
      then have "0 < (\<Sum>u\<leftarrow>q. summand docs doc u)" using Cons by simp
      then show ?thesis using summand_nonneg [of docs doc a] by simp
    qed
  qed
  then show ?thesis using assms(1) by (simp add: spec_score_summand)
qed

lemma spec_score_zero:
  assumes "set query \<inter> set doc = {}"
  shows "spec_score default_k1 default_b docs query doc = 0"
proof -
  have "\<forall>t\<in>set query. summand docs doc t = 0"
    using assms by (auto intro: summand_zero)
  then have "(\<Sum>t\<leftarrow>query. summand docs doc t) = 0"
    by (induction query) simp_all
  then show ?thesis
    by (simp add: spec_score_summand)
qed

lemma documents_BM25: "documents (BM25 docs k b') = docs"
  by (simp add: BM25_def computeIdf_def Let_def)

lemma scored_BM25:
  "scored (BM25 docs k b') query = map (\<lambda>doc. (doc, spec_score k b' docs query doc)) docs"
proof (rule nth_equalityI)
  show "length (scored (BM25 docs k b') query) = length (map (\<lambda>doc. (doc, spec_score k b' docs query doc)) docs)"
    by (simp add: scored_def documents_BM25)
next
  fix i assume "i < length (scored (BM25 docs k b') query)"
  then have i: "i < length docs" by (simp add: scored_def documents_BM25)
  then show "scored (BM25 docs k b') query ! i = map (\<lambda>doc. (doc, spec_score k b' docs query doc)) docs ! i"
    by (simp add: scored_def documents_BM25 score_formula)
qed

lemma bm25_search_eq:
  "bm25_search (BM25 docs k b') query =
   map fst (sort_key (\<lambda>item. - snd item) (map (\<lambda>doc. (doc, spec_score k b' docs query doc)) docs))"
  using scored_BM25 [of docs k b' query]
  by (simp add: bm25_search_def scored_def Let_def)

lemma sort_key_pairs:
  "sort_key (\<lambda>item. - snd item) (map (\<lambda>doc. (doc, f doc)) docs)
   = map (\<lambda>doc. (doc, f doc)) (sort_key (\<lambda>doc. - f doc) docs)"
proof (induction docs)
  case Nil
  then show ?case by simp
next
  case (Cons d docs)
  have ins: "insort_key (\<lambda>item. - snd item) (d, f d) (map (\<lambda>doc. (doc, f doc)) ys)
        = map (\<lambda>doc. (doc, f doc)) (insort_key (\<lambda>doc. - f doc) d ys)" for ys
    by (induction ys) simp_all
  show ?case by (simp add: Cons.IH ins)
qed

lemma bm25_search_sort:
  "bm25_search (BM25 docs k b') query = sort_key (\<lambda>doc. - spec_score k b' docs query doc) docs"
  by (simp add: bm25_search_eq sort_key_pairs comp_def)

lemma bm25_search_perm: "mset (bm25_search (BM25 docs k b') query) = mset docs"
  by (simp add: bm25_search_sort)

lemma bm25_search_descending:
  "sorted_wrt (\<lambda>d d'. spec_score k b' docs query d' \<le> spec_score k b' docs query d)
     (bm25_search (BM25 docs k b') query)"
proof -
  have "sorted (map (\<lambda>doc. - spec_score k b' docs query doc) (bm25_search (BM25 docs k b') query))"
    by (simp add: bm25_search_sort)
  then show ?thesis
    by (simp add: sorted_wrt_map)
qed

lemma bm25_search_first:
  assumes i: "i < length docs" and t: "t \<in> set query" "t \<in> set (docs ! i)"
    and others: "\<forall>j<length docs. j \<noteq> i \<longrightarrow> set query \<inter> set (docs ! j) = {}"
  shows "hd (bm25_search (BM25 docs default_k1 default_b) query) = docs ! i"
proof -
  let ?f = "\<lambda>doc. spec_score default_k1 default_b docs query doc"
  let ?ys = "bm25_search (BM25 docs default_k1 default_b) query"
  have set: "set ?ys = set docs" and len: "length ?ys = length docs"
    by (simp_all add: bm25_search_sort)
  have ne: "?ys \<noteq> []" using len i by auto
  have mem: "docs ! i \<in> set ?ys" using set i by simp
  have "hd ?ys \<in> set docs" using ne set by (metis hd_in_set)
  then obtain j where j: "j < length docs" "hd ?ys = docs ! j"
    by (metis in_set_conv_nth)
  have "?f (docs ! i) \<le> ?f (hd ?ys)"
  proof (cases "hd ?ys = docs ! i")
    case True
    then show ?thesis by simp
  next
    case False
    have "?ys = hd ?ys # tl ?ys" using ne by simp
    moreover have "docs ! i \<in> set (tl ?ys)"
      using mem False ne by (metis list.exhaust_sel set_ConsD)
    ultimately show ?thesis
      using bm25_search_descending [of default_k1 default_b docs query]
      by (metis sorted_wrt.simps(2))
  qed
  moreover have "0 < ?f (docs ! i)" using spec_score_pos [OF t] .
  ultimately have pos: "0 < ?f (docs ! j)" using j(2) by simp
  have "j = i"
  proof (rule ccontr)
    assume "j \<noteq> i"
    then have "?f (docs ! j) = 0" using others j(1) spec_score_zero by blast
    with pos show False by simp
  qed
  then show ?thesis using j(2) by simp
qed



text \<open>
  Claim C6. For documents that are not all empty (the average length is then not zero),
  with \<open>k1 = 1.5\<close> and \<open>b = 0.75\<close>: the score the code computes for a document is the
  formula of the specification; \<open>search\<close> of BM25 returns the documents, each once, in
  the order of descending score; and when one document alone shares a term with the
  query, it comes first.
\<close>

theorem bm25_ranking:
  assumes "0 < sum_list (map length docs)"
  shows "default_k1 = 1.5 \<and> default_b = 0.75
    \<and> (\<forall>i<length docs.
          score (BM25 docs default_k1 default_b) query (docs ! i) i
          = spec_score default_k1 default_b docs query (docs ! i))
    \<and> sorted_wrt (\<lambda>d d'. spec_score default_k1 default_b docs query d'
                           \<le> spec_score default_k1 default_b docs query d)
         (bm25_search (BM25 docs default_k1 default_b) query)
    \<and> mset (bm25_search (BM25 docs default_k1 default_b) query) = mset docs
    \<and> (\<forall>i<length docs.
          (\<exists>t\<in>set query. t \<in> set (docs ! i))
          \<and> (\<forall>j<length docs. j \<noteq> i \<longrightarrow> set query \<inter> set (docs ! j) = {})
          \<longrightarrow> hd (bm25_search (BM25 docs default_k1 default_b) query) = docs ! i)"
  using bm25_search_first [of _ docs _ query]
  by (auto simp add: default_k1_def default_b_def score_formula bm25_search_descending
      bm25_search_perm simp del: mset_sort)

theorem bm25_ranking_witness:
  "0 < sum_list (map length [[''a'', ''b'', ''c''], [''d'', ''e'', ''f''], [''g'', ''h'', ''i'']])
   \<and> hd (bm25_search (BM25 [[''a'', ''b'', ''c''], [''d'', ''e'', ''f''], [''g'', ''h'', ''i'']]
                         default_k1 default_b) [''e'', ''x''])
       = [''d'', ''e'', ''f'']"
proof -
  let ?docs = "[[''a'', ''b'', ''c''], [''d'', ''e'', ''f''], [''g'', ''h'', ''i'']]"
  have h: "0 < sum_list (map length ?docs)" by simp
  have i: "(1::nat) < length ?docs" by simp
  have others: "\<forall>j<length ?docs. j \<noteq> 1 \<longrightarrow> set [''e'', ''x''] \<inter> set (?docs ! j) = {}"
    by (simp add: less_Suc_eq numeral_3_eq_3)
  have shared: "\<exists>t\<in>set [''e'', ''x'']. t \<in> set (?docs ! 1)" by simp
  have "\<forall>i<length ?docs.
          (\<exists>t\<in>set [''e'', ''x'']. t \<in> set (?docs ! i))
          \<and> (\<forall>j<length ?docs. j \<noteq> i \<longrightarrow> set [''e'', ''x''] \<inter> set (?docs ! j) = {})
          \<longrightarrow> hd (bm25_search (BM25 ?docs default_k1 default_b) [''e'', ''x'']) = ?docs ! i"
    using bm25_ranking [OF h, of "[''e'', ''x'']"] by blast
  from this [rule_format, OF i] shared others
  have "hd (bm25_search (BM25 ?docs default_k1 default_b) [''e'', ''x'']) = ?docs ! 1"
    by blast
  then show ?thesis using h by simp
qed

section \<open>Tenants in the store\<close>








lemma merge_node_edges [simp]:
  "edges (snd (merge_node lbl kvs on_create on_match st)) = edges st"
  by (simp add: merge_node_def)

















section \<open>The four cases of \<open>_addEntities\<close>\<close>








section \<open>Tenants in the operations on the store\<close>


lemma delete_query_nodes [simp]: "nodes (snd (delete_query item uid st)) = nodes st"
  by (simp add: delete_query_def tick_def)

lemma delete_query_edges_subset: "set (edges (snd (delete_query item uid st))) \<subseteq> set (edges st)"
  by (auto simp add: delete_query_def tick_def)

lemma owned_nodes_cong: "nodes st' = nodes st \<Longrightarrow> owned uid st' i = owned uid st i"
  by (simp add: owned_def)

lemma deleteEntities_nodes [simp]: "nodes (snd (deleteEntities toBeDeleted uid st)) = nodes st"
  by (induction toBeDeleted arbitrary: st) (simp_all add: split_beta)








section \<open>Malformed tool calls\<close>

lemma retrieveNodes_first_call_malformed:
  assumes "name toolCall = ''extract_entities''" and "prs (arguments toolCall) = None"
  shows "retrieveNodesFromData prs (LLMResponse (Some (toolCall # calls))) = Inr []"
  using assms by (simp add: retrieveNodesFromData_def entries_def fromEntries_def)

text \<open>
  Claim C1, on the code as it is. When the arguments of the first tool call of the
  answer for the relations are not valid JSON, \<open>_establishNodesRelationsFromData\<close>
  raises the \<open>SyntaxError\<close> of \<open>JSON.parse\<close>, and so does \<open>add\<close>; the extraction of the
  entities returns the empty map on such a call (lemma \<open>retrieveNodes_first_call_malformed\<close>).
\<close>

theorem relation_extraction_raises:
  assumes "JSON_parse env (arguments toolCall) = None" and "arguments toolCall \<noteq> []"
    and "retrieveNodesFromData (JSON_parse env) (structuredLlm env (ExtractEntities data userId))
         = Inr entityTypeMap"
    and "customPrompt env = None"
    and "structuredLlm env (EstablishRelations data userId (object_keys entityTypeMap))
         = LLMResponse (Some (toolCall # calls))"
  shows "establishNodesRelationsFromData (JSON_parse env) (LLMResponse (Some (toolCall # calls)))
         = Inl SyntaxError
       \<and> add env data userId st = Inl SyntaxError"
  using assms by (simp add: establishNodesRelationsFromData_def add_def)

theorem relation_extraction_raises_witness:
  "JSON_parse example_env ''{\"entities\": ['' = None
   \<and> ''{\"entities\": ['' \<noteq> []
   \<and> retrieveNodesFromData (JSON_parse example_env)
        (structuredLlm example_env (ExtractEntities ''Alice works at Acme'' ''alice'')) = Inr []
   \<and> customPrompt example_env = None
   \<and> structuredLlm example_env (EstablishRelations ''Alice works at Acme'' ''alice'' (object_keys []))
       = LLMResponse (Some [\<lparr>name = ''establish_relationships'', arguments = ''{\"entities\": [''\<rparr>])
   \<and> add example_env ''Alice works at Acme'' ''alice'' \<lparr>nodes = [], edges = [], next_id = 0, clock = 0\<rparr>
       = Inl SyntaxError"
proof -
  let ?tc = "\<lparr>name = ''establish_relationships'', arguments = ''{\"entities\": [''\<rparr>"
  have h1: "JSON_parse example_env (arguments ?tc) = None"
    by (simp add: example_env_def)
  have h2: "arguments ?tc \<noteq> []" by simp
  have h3: "retrieveNodesFromData (JSON_parse example_env)
        (structuredLlm example_env (ExtractEntities ''Alice works at Acme'' ''alice'')) = Inr []"
    by (simp add: example_env_def retrieveNodesFromData_def entries_def fromEntries_def)
  have h4: "customPrompt example_env = None"
    by (simp add: example_env_def)
  have h5: "structuredLlm example_env
              (EstablishRelations ''Alice works at Acme'' ''alice'' (object_keys []))
            = LLMResponse (Some (?tc # []))"
    by (simp add: example_env_def)
  from relation_extraction_raises [OF h1 h2 h3 h4 h5]
  have "add example_env ''Alice works at Acme'' ''alice''
          \<lparr>nodes = [], edges = [], next_id = 0, clock = 0\<rparr> = Inl SyntaxError"
    by simp
  then show ?thesis
    using h1 h2 h3 h4 h5 by simp
qed

section \<open>The graph of a request\<close>

text \<open>
  Claim C3, on the code as it is. The graph that a request is sent to is the configured
  \<open>graphName\<close>, or \<open>mem0\<close> when there is none, whatever the tenant: the requests of the
  tenants \<open>alice\<close> and \<open>bob\<close> both go to the graph \<open>mem0\<close>.
\<close>

theorem one_graph_for_all_tenants:
  "fst (deleteAll_request config userId) = or_else (graphName config) ''mem0''
   \<and> fst (deleteAll_request
            \<lparr>host = ''localhost'', port = 6379, password = None, username = None,
              graphName = Some ''mem0''\<rparr> ''alice'') = ''mem0''
   \<and> fst (deleteAll_request
            \<lparr>host = ''localhost'', port = 6379, password = None, username = None,
              graphName = Some ''mem0''\<rparr> ''bob'') = ''mem0''
   \<and> init \<lparr>host = ''localhost'', port = 6379, password = None, username = None, graphName = None\<rparr>
       = (''redis://localhost:6379'', ''mem0'')"
proof -
  have "fst (deleteAll_request config userId) = or_else (graphName config) ''mem0''" for config userId
    by (simp add: deleteAll_request_def init_def Let_def split: prod.splits)
  moreover have "init \<lparr>host = ''localhost'', port = 6379, password = None, username = None,
      graphName = None\<rparr> = (''redis://localhost:6379'', ''mem0'')"
    by code_simp
  ultimately show ?thesis
    by (simp add: or_else_def)
qed

end
